theory Spec2Isabelle
  imports Main "HOL-Library.Word" "HOL-Library.List_Lexorder" "HOL-Library.Char_ord"
begin

section \<open>Strings, identifiers and dates\<close>

text \<open>
  The controllers of \<^verbatim>\<open>controllers/userController.js\<close> receive their arguments as
  JavaScript strings (fields of the request body, route parameters). A JavaScript string
  is a sequence of UTF-16 code units and \<^verbatim>\<open>.length\<close> counts code units, so a string
  is a list of 16-bit words here. \<open>js\<close> writes an ASCII literal as such a string.
\<close>

type_synonym jsstring = "16 word list"

definition js :: "string \<Rightarrow> jsstring" where
  "js s = map (\<lambda>c. of_nat (of_char c)) s"

text \<open>
  A MongoDB ObjectId is a 12-byte value; its string form is 24 hexadecimal digits.
  \<open>hexValue\<close> reads one digit (either case), \<open>None\<close> for any other code unit.
\<close>

type_synonym ObjectId = "96 word"

definition hexValue :: "16 word \<Rightarrow> nat option" where
  "hexValue c =
     (let n = unat c in
      if 48 \<le> n \<and> n \<le> 57 then Some (n - 48)
      else if 97 \<le> n \<and> n \<le> 102 then Some (n - 87)
      else if 65 \<le> n \<and> n \<le> 70 then Some (n - 55)
      else None)"

text \<open>
  \<^verbatim>\<open>mongoose.isValidObjectId(v)\<close> for a string argument: a string of 24 hexadecimal
  digits. (The library also accepts ObjectId instances and numbers, and in some versions
  any string of 12 characters; request fields are strings here, and the hexadecimal form
  is the one \<^verbatim>\<open>ObjectId.createFromHexString\<close> takes.)
\<close>

definition isValidObjectId :: "jsstring \<Rightarrow> bool" where
  "isValidObjectId v \<longleftrightarrow> length v = 24 \<and> list_all (\<lambda>c. hexValue c \<noteq> None) v"

definition parseHex :: "jsstring \<Rightarrow> nat" where
  "parseHex v = foldl (\<lambda>a c. 16 * a + (case hexValue c of Some d \<Rightarrow> d | None \<Rightarrow> 0)) 0 v"

text \<open>
  \<^verbatim>\<open>ObjectId.createFromHexString\<close>, also the cast Mongoose applies to a string that a
  query compares with an ObjectId field. Every controller calls it behind the
  \<open>isValidObjectId\<close> guard, or on the output of \<open>toString\<close>.
\<close>

definition createFromHexString :: "jsstring \<Rightarrow> ObjectId" where
  "createFromHexString v = of_nat (parseHex v)"

definition hexChar :: "nat \<Rightarrow> 16 word" where
  "hexChar d = (if d < 10 then of_nat (48 + d) else of_nat (87 + d))"

fun hexDigits :: "nat \<Rightarrow> nat \<Rightarrow> jsstring" where
  "hexDigits 0 n = []"
| "hexDigits (Suc k) n = hexDigits k (n div 16) @ [hexChar (n mod 16)]"

text \<open>\<^verbatim>\<open>ObjectId.prototype.toString\<close>: 24 lower-case hexadecimal digits.\<close>

definition toString :: "ObjectId \<Rightarrow> jsstring" where
  "toString oid = hexDigits 24 (unat oid)"

text \<open>A \<^verbatim>\<open>Date\<close> is a number of milliseconds since 1970-01-01T00:00:00Z.\<close>

type_synonym Date = int

text \<open>
  The UTC day of a date: the number of whole days since 1970-01-01, rounded down, so that
  the millisecond before the epoch is on day \<open>-1\<close>.
\<close>

definition utc_day :: "Date \<Rightarrow> int" where
  "utc_day t = t div 86400000"

text \<open>
  The proleptic Gregorian calendar as a textbook states it: the leap years, the lengths
  of the months, the dates that exist, and the number of days from 1970-01-01 to a date,
  counted year by year and month by month. The conversion below is compared with it.
\<close>

definition leap_year :: "int \<Rightarrow> bool" where
  "leap_year y \<longleftrightarrow> y mod 4 = 0 \<and> (y mod 100 \<noteq> 0 \<or> y mod 400 = 0)"

definition days_in_month :: "int \<Rightarrow> int \<Rightarrow> int" where
  "days_in_month y m =
     (if m = 2 then (if leap_year y then 29 else 28)
      else if m = 4 \<or> m = 6 \<or> m = 9 \<or> m = 11 then 30 else 31)"

definition valid_date :: "int \<Rightarrow> int \<Rightarrow> int \<Rightarrow> bool" where
  "valid_date y m d \<longleftrightarrow> 1 \<le> m \<and> m \<le> 12 \<and> 1 \<le> d \<and> d \<le> days_in_month y m"

definition leap_years_before :: "int \<Rightarrow> int" where
  "leap_years_before y = (y - 1) div 4 - (y - 1) div 100 + (y - 1) div 400"

definition days_before_year :: "int \<Rightarrow> int" where
  "days_before_year y = 365 * (y - 1970) + (leap_years_before y - leap_years_before 1970)"

definition days_before_month :: "int \<Rightarrow> int \<Rightarrow> int" where
  "days_before_month y m = sum_list (map (days_in_month y) [1..m - 1])"

definition days_from_civil :: "int \<Rightarrow> int \<Rightarrow> int \<Rightarrow> int" where
  "days_from_civil y m d = days_before_year y + days_before_month y m + (d - 1)"

text \<open>
  The conversion of a day number to its date. Days are counted from 0000-03-01 in eras of
  400 years (146097 days). An era is four centuries of 36524 days and one day more, a
  century 25 cycles of four years (1461 days) less one day, a cycle four years of 365
  days and one day more; the quotients are capped so that the extra day stays in the last
  part. Years start in March, which puts the leap day at the end of its year.
\<close>

definition day_of_era :: "int \<Rightarrow> int" where
  "day_of_era n = n mod 146097"

definition century_of_era :: "int \<Rightarrow> int" where
  "century_of_era n = min (day_of_era n div 36524) 3"

definition day_of_century :: "int \<Rightarrow> int" where
  "day_of_century n = day_of_era n - 36524 * century_of_era n"

definition cycle_of_century :: "int \<Rightarrow> int" where
  "cycle_of_century n = min (day_of_century n div 1461) 24"

definition day_of_cycle :: "int \<Rightarrow> int" where
  "day_of_cycle n = day_of_century n - 1461 * cycle_of_century n"

definition year_of_cycle :: "int \<Rightarrow> int" where
  "year_of_cycle n = min (day_of_cycle n div 365) 3"

definition day_of_year :: "int \<Rightarrow> int" where
  "day_of_year n = day_of_cycle n - 365 * year_of_cycle n"

definition year_from_march :: "int \<Rightarrow> int" where
  "year_from_march n =
     400 * (n div 146097) + 100 * century_of_era n + 4 * cycle_of_century n + year_of_cycle n"

definition month_from_march :: "int \<Rightarrow> int" where
  "month_from_march n = (5 * day_of_year n + 2) div 153"

definition civil_day :: "int \<Rightarrow> int" where
  "civil_day n = day_of_year n - (153 * month_from_march n + 2) div 5 + 1"

definition civil_month :: "int \<Rightarrow> int" where
  "civil_month n = (if month_from_march n < 10 then month_from_march n + 3
                    else month_from_march n - 9)"

definition civil_year :: "int \<Rightarrow> int" where
  "civil_year n = year_from_march n + (if civil_month n \<le> 2 then 1 else 0)"

text \<open>(year, month, day) of a day number counted from 1970-01-01.\<close>

definition civil_from_days :: "int \<Rightarrow> int \<times> int \<times> int" where
  "civil_from_days z =
     (civil_year (z + 719468), civil_month (z + 719468), civil_day (z + 719468))"

text \<open>The format \<^verbatim>\<open>'%Y-%m-%d'\<close>: four digits, two digits and two digits, padded with zeros.\<close>

fun decDigits :: "nat \<Rightarrow> nat \<Rightarrow> string" where
  "decDigits 0 n = []"
| "decDigits (Suc k) n = decDigits k (n div 10) @ [char_of (48 + n mod 10)]"

definition format_date :: "int \<Rightarrow> int \<Rightarrow> int \<Rightarrow> string" where
  "format_date y m d =
     decDigits 4 (nat y) @ ''-'' @ decDigits 2 (nat m) @ ''-'' @ decDigits 2 (nat d)"

text \<open>
  The aggregation operator \<^verbatim>\<open>$dateToString\<close> with format \<^verbatim>\<open>'%Y-%m-%d'\<close> and no
  time zone (UTC). MongoDB formats the years 0 to 9999; for a date of another year the
  operator raises an error and the aggregation fails: that is \<open>None\<close> here. A JavaScript
  \<^verbatim>\<open>Date\<close> reaches well beyond these years, so the case exists.
\<close>

definition dateToString :: "Date \<Rightarrow> string option" where
  "dateToString t =
     (case civil_from_days (utc_day t) of
        (y, m, d) \<Rightarrow> if 0 \<le> y \<and> y \<le> 9999 then Some (format_date y m d) else None)"

section \<open>Messages and responses\<close>

text \<open>
  Modelled from the spec: \<^verbatim>\<open>utils/constants.js\<close>, the table \<^verbatim>\<open>UserResponseMessages\<close>,
  is not among the sources. Its keys are the constructors below, taken from the
  controllers and their tests; distinct keys are distinct messages, as the tests compare
  them. The failure kinds of the specification are, in order: \<open>ERROR_USER_NAME\<close>
  InvalidUsername, \<open>ERROR_EXIST_USER\<close> DuplicateUsername, \<open>ERROR_VALID_ID\<close>
  InvalidIdentifier, \<open>ERROR_IDS_SAME\<close> IdentityConflict, \<open>ERROR_UPDATE_FOLLOWING\<close>
  FollowingUpdateFailed, \<open>ERROR_UPDATE_FOLLOWERS\<close> FollowersUpdateFailed,
  \<open>ERROR_UPDATE_UNFOLLOWING\<close> UnfollowingUpdateFailed, \<open>ERROR_UPDATE_UNFOLLOWERS\<close>
  UnfollowersUpdateFailed, \<open>NOT_FOUND\<close> NotFound.
\<close>

datatype UserResponseMessages =
    CREATED | ALL_USER | UPDATE_FOLLOW | UPDATE_UNFOLLOW | SHOW_FOLLOWERS | COMMON_FOLLOWERS
  | ERROR_USER_NAME | ERROR_EXIST_USER | ERROR_VALID_ID | ERROR_IDS_SAME
  | ERROR_UPDATE_FOLLOWING | ERROR_UPDATE_FOLLOWERS
  | ERROR_UPDATE_UNFOLLOWING | ERROR_UPDATE_UNFOLLOWERS | NOT_FOUND

text \<open>
  What a controller hands to \<^verbatim>\<open>next(err)\<close>: an \<^verbatim>\<open>Error\<close> with a message of the table,
  the duplicate-key error (code 11000) of a unique index, or the error that an
  aggregation raises when \<^verbatim>\<open>$dateToString\<close> meets a date outside the years 0 to 9999.
\<close>

datatype error = Error UserResponseMessages | E11000 | DateOutOfRange

text \<open>
  \<^verbatim>\<open>utils/HandleResponse.js\<close>: the \<^verbatim>\<open>user\<close> field is set when a payload is given
  (a document or an array, also an empty one, is a payload; \<open>None\<close> is the omitted argument).
\<close>

record 'a response =
  status :: nat
  message :: UserResponseMessages
  success :: bool
  user :: "'a option"

definition getSuccessResponse :: "nat \<Rightarrow> UserResponseMessages \<Rightarrow> 'a option \<Rightarrow> 'a response" where
  "getSuccessResponse st msg usr = \<lparr>status = st, message = msg, success = True, user = usr\<rparr>"

section \<open>The User collection\<close>

text \<open>
  \<^verbatim>\<open>models/User.js\<close>: a user document has a \<^verbatim>\<open>username\<close> and two arrays of embedded
  documents, \<^verbatim>\<open>followers: [{followId, date}]\<close> and
  \<^verbatim>\<open>followings: [{followingId, date}]\<close>. The fields of the embedded documents carry
  the name of their array, as in the query paths \<^verbatim>\<open>'followers.followId'\<close> and
  \<^verbatim>\<open>'$followers.date'\<close>. \<open>user_id\<close> is the document's \<^verbatim>\<open>_id\<close>. The schema option
  \<^verbatim>\<open>timestamps\<close> adds \<^verbatim>\<open>createdAt\<close> and \<^verbatim>\<open>updatedAt\<close>, which no controller reads;
  they are left out.
\<close>

record followers_entry =
  followers_followId :: ObjectId
  followers_date :: Date

record followings_entry =
  followings_followingId :: ObjectId
  followings_date :: Date

record User =
  user_id :: ObjectId
  username :: jsstring
  followers :: "followers_entry list"
  followings :: "followings_entry list"

text \<open>The collection, in insertion order (the order in which a scan returns the documents).\<close>

type_synonym collection = "User list"

text \<open>
  MongoDB keeps \<^verbatim>\<open>_id\<close> unique in a collection. Each conditional push of \<open>followUser\<close>
  is one atomic update, so an array never holds an identifier twice.
\<close>

definition wf_store :: "collection \<Rightarrow> bool" where
  "wf_store db \<longleftrightarrow>
     distinct (map user_id db) \<and>
     list_all (\<lambda>d. distinct (map followings_followingId (followings d))) db \<and>
     list_all (\<lambda>d. distinct (map followers_followId (followers d))) db"

subsection \<open>Model methods\<close>

text \<open>
  Store calls are total: a lost connection or another failure of the database itself is
  outside the model.
\<close>

definition findOne :: "(User \<Rightarrow> bool) \<Rightarrow> collection \<Rightarrow> User option" where
  "findOne flt db = List.find flt db"

definition findById :: "ObjectId \<Rightarrow> collection \<Rightarrow> User option" where
  "findById i db = findOne (\<lambda>d. user_id d = i) db"

text \<open>
  \<^verbatim>\<open>create({username})\<close>: the new document takes the defaults of the schema (two empty
  arrays) and the identifier \<open>newId\<close> that the driver generates; the unique indexes on
  \<^verbatim>\<open>_id\<close> and \<^verbatim>\<open>username\<close> reject a duplicate.
\<close>

definition create :: "jsstring \<Rightarrow> ObjectId \<Rightarrow> collection \<Rightarrow> error + User \<times> collection" where
  "create uname newId db =
     (let doc = \<lparr>user_id = newId, username = uname, followers = [], followings = []\<rparr>
      in if newId \<in> user_id ` set db \<or> uname \<in> username ` set db then Inl E11000
         else Inr (doc, db @ [doc]))"

text \<open>
  \<^verbatim>\<open>findOneAndUpdate(filter, update, {new: true})\<close>: the first document that matches the
  filter is updated and returned as updated; \<^verbatim>\<open>null\<close> (here \<open>None\<close>) and no write
  when no document matches.
\<close>

fun findOneAndUpdate ::
  "(User \<Rightarrow> bool) \<Rightarrow> (User \<Rightarrow> User) \<Rightarrow> collection \<Rightarrow> User option \<times> collection" where
  "findOneAndUpdate flt upd [] = (None, [])"
| "findOneAndUpdate flt upd (d # ds) =
     (if flt d then (Some (upd d), upd d # ds)
      else (case findOneAndUpdate flt upd ds of (r, ds') \<Rightarrow> (r, d # ds')))"

text \<open>\<^verbatim>\<open>find({_id: {$in: ids}}, 'username')\<close>: the projection keeps \<^verbatim>\<open>_id\<close> and \<^verbatim>\<open>username\<close>.\<close>

record user_view =
  view_id :: ObjectId
  view_username :: jsstring

definition find_id_in :: "jsstring list \<Rightarrow> collection \<Rightarrow> user_view list" where
  "find_id_in ids db =
     map (\<lambda>d. \<lparr>view_id = user_id d, view_username = username d\<rparr>)
       (filter (\<lambda>d. user_id d \<in> createFromHexString ` set ids) db)"

section \<open>Controllers\<close>

subsection \<open>followUser and unfollowUser\<close>

text \<open>
  The update documents: \<^verbatim>\<open>{$push: {followings: e}}\<close> appends \<open>e\<close> to the array, and
  \<^verbatim>\<open>{$pull: {followings: {followingId: i}}}\<close> removes every element with that
  identifier; likewise for \<^verbatim>\<open>followers\<close>.
\<close>

definition push_followings :: "followings_entry \<Rightarrow> User \<Rightarrow> User" where
  "push_followings e d = d\<lparr>followings := followings d @ [e]\<rparr>"

definition push_followers :: "followers_entry \<Rightarrow> User \<Rightarrow> User" where
  "push_followers e d = d\<lparr>followers := followers d @ [e]\<rparr>"

definition pull_followings :: "ObjectId \<Rightarrow> User \<Rightarrow> User" where
  "pull_followings i d =
     d\<lparr>followings := filter (\<lambda>e. followings_followingId e \<noteq> i) (followings d)\<rparr>"

definition pull_followers :: "ObjectId \<Rightarrow> User \<Rightarrow> User" where
  "pull_followers i d =
     d\<lparr>followers := filter (\<lambda>e. followers_followId e \<noteq> i) (followers d)\<rparr>"

text \<open>
  \<open>now1\<close> and \<open>now2\<close> are the values of the two \<^verbatim>\<open>new Date()\<close>. The result is what
  is sent (\<open>Inr\<close>) or the error forwarded to \<^verbatim>\<open>next\<close> (\<open>Inl\<close>), with the collection
  as the controller leaves it. The filter \<^verbatim>\<open>'followings.followingId': {$ne: x}\<close> holds
  of a document when no element of the array has that identifier.
\<close>

definition followUser ::
  "jsstring \<Rightarrow> jsstring \<Rightarrow> Date \<Rightarrow> Date \<Rightarrow> collection \<Rightarrow> (error + unit response) \<times> collection" where
  "followUser userId followId now1 now2 db =
     (if \<not> isValidObjectId userId \<or> \<not> isValidObjectId followId
      then (Inl (Error ERROR_VALID_ID), db)
      else if userId = followId then (Inl (Error ERROR_IDS_SAME), db)
      else
        (case findOneAndUpdate
                (\<lambda>d. user_id d = createFromHexString userId \<and>
                      createFromHexString followId \<notin> followings_followingId ` set (followings d))
                (push_followings
                   \<lparr>followings_followingId = createFromHexString followId,
                     followings_date = now1\<rparr>)
                db of
           (userUpdateResult, db1) \<Rightarrow>
             if userUpdateResult = None then (Inl (Error ERROR_UPDATE_FOLLOWING), db1)
             else
               (case findOneAndUpdate
                       (\<lambda>d. user_id d = createFromHexString followId \<and>
                             createFromHexString userId \<notin> followers_followId ` set (followers d))
                       (push_followers
                          \<lparr>followers_followId = createFromHexString userId,
                            followers_date = now2\<rparr>)
                       db1 of
                  (followUserUpdateResult, db2) \<Rightarrow>
                    if followUserUpdateResult = None
                    then (Inl (Error ERROR_UPDATE_FOLLOWERS), db2)
                    else (Inr (getSuccessResponse 200 UPDATE_FOLLOW None), db2))))"

text \<open>
  The filter \<^verbatim>\<open>'followings.followingId': x\<close> holds of a document when some element of
  the array has that identifier.
\<close>

definition unfollowUser ::
  "jsstring \<Rightarrow> jsstring \<Rightarrow> collection \<Rightarrow> (error + unit response) \<times> collection" where
  "unfollowUser userId unfollowId db =
     (if \<not> isValidObjectId userId \<or> \<not> isValidObjectId unfollowId
      then (Inl (Error ERROR_VALID_ID), db)
      else if userId = unfollowId then (Inl (Error ERROR_IDS_SAME), db)
      else
        (case findOneAndUpdate
                (\<lambda>d. user_id d = createFromHexString userId \<and>
                      createFromHexString unfollowId \<in> followings_followingId ` set (followings d))
                (pull_followings (createFromHexString unfollowId))
                db of
           (userUpdateResult, db1) \<Rightarrow>
             if userUpdateResult = None then (Inl (Error ERROR_UPDATE_UNFOLLOWING), db1)
             else
               (case findOneAndUpdate
                       (\<lambda>d. user_id d = createFromHexString unfollowId \<and>
                             createFromHexString userId \<in> followers_followId ` set (followers d))
                       (pull_followers (createFromHexString userId))
                       db1 of
                  (unfollowUserUpdateResult, db2) \<Rightarrow>
                    if unfollowUserUpdateResult = None
                    then (Inl (Error ERROR_UPDATE_UNFOLLOWERS), db2)
                    else (Inr (getSuccessResponse 200 UPDATE_UNFOLLOW None), db2))))"

subsection \<open>createUser\<close>

definition createUser ::
  "jsstring \<Rightarrow> ObjectId \<Rightarrow> collection \<Rightarrow> (error + User response) \<times> collection" where
  "createUser uname newId db =
     (if length uname < 3 then (Inl (Error ERROR_USER_NAME), db)
      else
        (case findOne (\<lambda>d. username d = uname) db of
           Some existUser \<Rightarrow> (Inl (Error ERROR_EXIST_USER), db)
         | None \<Rightarrow>
             (case create uname newId db of
                Inl err \<Rightarrow> (Inl err, db)
              | Inr (usr, db') \<Rightarrow> (Inr (getSuccessResponse 201 CREATED (Some usr)), db'))))"

subsection \<open>getFollowersCountDaily\<close>

text \<open>
  The stages of the aggregation pipeline. \<^verbatim>\<open>$unwind\<close> gives one document per element
  of \<^verbatim>\<open>followers\<close> (none for an empty array); the later stages read the element only.
  \<^verbatim>\<open>$group\<close> computes the key of every document, and the aggregation fails when
  \<^verbatim>\<open>$dateToString\<close> fails on one of them; otherwise it keeps one group per key with
  \<^verbatim>\<open>{$sum: 1}\<close> as its count. \<^verbatim>\<open>$sort\<close> orders the groups by their key, compared as
  strings.
\<close>

record daily_count =
  date :: string
  count :: nat

definition match_id :: "ObjectId \<Rightarrow> collection \<Rightarrow> User list" where
  "match_id i db = filter (\<lambda>d. user_id d = i) db"

definition unwind_followers :: "User list \<Rightarrow> followers_entry list" where
  "unwind_followers docs = concat (map followers docs)"

fun add_to_group :: "string \<Rightarrow> (string \<times> nat) list \<Rightarrow> (string \<times> nat) list" where
  "add_to_group k [] = [(k, 1)]"
| "add_to_group k ((k', c) # gs) =
     (if k = k' then (k', c + 1) # gs else (k', c) # add_to_group k gs)"

definition group_by_date :: "followers_entry list \<Rightarrow> (string \<times> nat) list option" where
  "group_by_date es =
     map_option (foldl (\<lambda>gs k. add_to_group k gs) [])
       (those (map (\<lambda>e. dateToString (followers_date e)) es))"

definition sort_by_date :: "(string \<times> nat) list \<Rightarrow> (string \<times> nat) list" where
  "sort_by_date gs = sort_key fst gs"

definition project_date_count :: "(string \<times> nat) list \<Rightarrow> daily_count list" where
  "project_date_count gs = map (\<lambda>(k, c). \<lparr>date = k, count = c\<rparr>) gs"

text \<open>
  The controller: an error of the aggregation is caught and handed to \<^verbatim>\<open>next(err)\<close>
  as it is.
\<close>

definition getFollowersCountDaily ::
  "jsstring \<Rightarrow> collection \<Rightarrow> error + daily_count list response" where
  "getFollowersCountDaily userId db =
     (if \<not> isValidObjectId userId then Inl (Error ERROR_VALID_ID)
      else
        (case group_by_date (unwind_followers (match_id (createFromHexString userId) db)) of
           None \<Rightarrow> Inl DateOutOfRange
         | Some groups \<Rightarrow>
             (let dailyCounts = project_date_count (sort_by_date groups)
              in Inr (getSuccessResponse 200 SHOW_FOLLOWERS (Some dailyCounts)))))"

subsection \<open>getCommonFollowers\<close>

definition getCommonFollowers ::
  "jsstring \<Rightarrow> jsstring \<Rightarrow> collection \<Rightarrow> error + user_view list response" where
  "getCommonFollowers userId1 userId2 db =
     (if \<not> isValidObjectId userId1 \<or> \<not> isValidObjectId userId2
      then Inl (Error ERROR_VALID_ID)
      else if userId1 = userId2 then Inl (Error ERROR_IDS_SAME)
      else
        (case (findById (createFromHexString userId1) db,
               findById (createFromHexString userId2) db) of
           (Some user1, Some user2) \<Rightarrow>
             (let followers1 = map (\<lambda>f. toString (followers_followId f)) (followers user1);
                  followers2 = map (\<lambda>f. toString (followers_followId f)) (followers user2);
                  commonFollowers = filter (\<lambda>f. f \<in> set followers2) followers1;
                  commonFollowersDetails = find_id_in commonFollowers db
              in Inr (getSuccessResponse 200 COMMON_FOLLOWERS (Some commonFollowersDetails)))
         | _ \<Rightarrow> Inl (Error NOT_FOUND)))"

section \<open>Notions used in the statements and proofs\<close>

text \<open>The collection after the document with identifier \<open>i\<close> went through \<open>upd\<close>.\<close>

definition update_by_id :: "ObjectId \<Rightarrow> (User \<Rightarrow> User) \<Rightarrow> collection \<Rightarrow> collection" where
  "update_by_id i upd db = map (\<lambda>x. if user_id x = i then upd x else x) db"

text \<open>
  Whether the document of \<open>u\<close> lists \<open>f\<close> in \<open>followings\<close>, and whether the document
  of \<open>f\<close> lists \<open>u\<close> in \<open>followers\<close>; false when there is no such document.
\<close>

definition has_following :: "collection \<Rightarrow> ObjectId \<Rightarrow> ObjectId \<Rightarrow> bool" where
  "has_following db u f =
     (case findById u db of
        None \<Rightarrow> False
      | Some d \<Rightarrow> f \<in> followings_followingId ` set (followings d))"

definition has_follower :: "collection \<Rightarrow> ObjectId \<Rightarrow> ObjectId \<Rightarrow> bool" where
  "has_follower db f u =
     (case findById f db of
        None \<Rightarrow> False
      | Some d \<Rightarrow> u \<in> followers_followId ` set (followers d))"

text \<open>The \<open>followers\<close> entries of the user with identifier \<open>i\<close>; none when there is no such user.\<close>

definition followers_of :: "ObjectId \<Rightarrow> collection \<Rightarrow> followers_entry list" where
  "followers_of i db = (case findById i db of None \<Rightarrow> [] | Some d \<Rightarrow> followers d)"

text \<open>
  The dates that \<^verbatim>\<open>$dateToString\<close> formats: from 0000-01-01T00:00:00.000Z up to, and
  not including, 10000-01-01T00:00:00.000Z.
\<close>

definition in_years_0000_9999 :: "Date \<Rightarrow> bool" where
  "in_years_0000_9999 t \<longleftrightarrow> - 62167219200000 \<le> t \<and> t < 253402300800000"

text \<open>The key that the pipeline gives to the entries of a day.\<close>

definition date_of_day :: "int \<Rightarrow> string" where
  "date_of_day z =
     format_date (civil_year (z + 719468)) (civil_month (z + 719468)) (civil_day (z + 719468))"

text \<open>
  The text \<^verbatim>\<open>YYYY-MM-DD\<close> of a date, written out digit by digit, for a year of at most
  four digits and a month and a day of at most two.
\<close>

definition digit :: "int \<Rightarrow> char" where
  "digit k = ''0123456789'' ! nat k"

definition iso_date :: "int \<Rightarrow> int \<Rightarrow> int \<Rightarrow> string" where
  "iso_date y m d =
     [digit (y div 1000), digit (y div 100 mod 10), digit (y div 10 mod 10), digit (y mod 10),
      CHR ''-'', digit (m div 10), digit (m mod 10),
      CHR ''-'', digit (d div 10), digit (d mod 10)]"

text \<open>Three users and their identifiers in string form, for concrete runs.\<close>

definition alice_id :: jsstring where "alice_id = js ''0000000000000000000000a1''"
definition bob_id :: jsstring where "bob_id = js ''0000000000000000000000b2''"
definition carol_id :: jsstring where "carol_id = js ''0000000000000000000000c3''"

definition alice :: User where
  "alice = \<lparr>user_id = 0xa1, username = js ''alice'', followers = [], followings = []\<rparr>"
definition bob :: User where
  "bob = \<lparr>user_id = 0xb2, username = js ''bob'', followers = [], followings = []\<rparr>"
definition carol :: User where
  "carol = \<lparr>user_id = 0xc3, username = js ''carol'', followers = [], followings = []\<rparr>"

text \<open>
  The collection after alice followed bob, and a document of bob that lists alice as a
  follower while alice's document does not list bob: the state that an unfollow leaves
  behind when it stops between its two writes, or when its writes interleave with those
  of a follow.
\<close>

definition alice_follows_bob :: collection where
  "alice_follows_bob =
     [alice\<lparr>followings := [\<lparr>followings_followingId = 0xb2, followings_date = 1721433600000\<rparr>]\<rparr>,
      bob\<lparr>followers := [\<lparr>followers_followId = 0xa1, followers_date = 1721433600002\<rparr>]\<rparr>]"

definition bob_stale :: User where
  "bob_stale = bob\<lparr>followers := [\<lparr>followers_followId = 0xa1, followers_date = 1709164800000\<rparr>]\<rparr>"

text \<open>
  A collection in which carol follows alice and bob, and bob has two more followers; the
  dates are 2024-07-20T00:00:00.000Z, 2024-02-29T00:00:00.000Z and
  2024-07-20T23:59:59.999Z.
\<close>

definition alice_popular :: User where
  "alice_popular = alice\<lparr>followers := [\<lparr>followers_followId = 0xc3, followers_date = 1721433600500\<rparr>]\<rparr>"

definition bob_popular :: User where
  "bob_popular = bob\<lparr>followers :=
     [\<lparr>followers_followId = 0xa1, followers_date = 1721433600000\<rparr>,
      \<lparr>followers_followId = 0xc3, followers_date = 1709164800000\<rparr>,
      \<lparr>followers_followId = 0xd4, followers_date = 1721519999999\<rparr>]\<rparr>"

definition carol_view :: user_view where
  "carol_view = \<lparr>view_id = 0xc3, view_username = js ''carol''\<rparr>"

text \<open>A document of bob whose follower is dated 10000-01-01T00:00:00.000Z.\<close>

definition bob_far :: User where
  "bob_far = bob\<lparr>followers := [\<lparr>followers_followId = 0xa1, followers_date = 253402300800000\<rparr>]\<rparr>"

section \<open>Identifiers in string form\<close>

lemma unat_hexChar: "d < 16 \<Longrightarrow> unat (hexChar d) = (if d < 10 then 48 + d else 87 + d)"
  unfolding hexChar_def by (simp only: unat_of_nat split: if_splits) simp

lemma hexValue_hexChar: "d < 16 \<Longrightarrow> hexValue (hexChar d) = Some d"
  by (simp add: hexValue_def unat_hexChar Let_def)

lemma parseHex_snoc:
  "parseHex (v @ [c]) = 16 * parseHex v + (case hexValue c of Some d \<Rightarrow> d | None \<Rightarrow> 0)"
  by (simp add: parseHex_def)

lemma parseHex_hexDigits: "parseHex (hexDigits k n) = n mod 16 ^ k"
proof (induction k arbitrary: n)
  case 0
  show ?case by (simp add: parseHex_def)
next
  case (Suc k)
  have "parseHex (hexDigits (Suc k) n) = 16 * ((n div 16) mod 16 ^ k) + n mod 16"
    by (simp add: parseHex_snoc Suc.IH hexValue_hexChar)
  also have "\<dots> = n mod 16 ^ Suc k"
    by (simp add: mod_mult2_eq)
  finally show ?case .
qed

lemma createFromHexString_toString: "createFromHexString (toString x) = x"
proof -
  have "unat x < 2 ^ 96"
    using unsigned_less [of x] by simp
  then have "unat x mod 16 ^ 24 = unat x"
    by simp
  then show ?thesis
    by (simp add: createFromHexString_def toString_def parseHex_hexDigits)
qed

section \<open>Store operations\<close>

lemma findById_Some: "findById i db = Some d \<Longrightarrow> d \<in> set db \<and> user_id d = i"
  by (induction db) (auto simp: findById_def findOne_def split: if_splits)

lemma findById_None: "findById i db = None \<longleftrightarrow> i \<notin> user_id ` set db"
  by (induction db) (auto simp: findById_def findOne_def)

lemma findById_distinct:
  "distinct (map user_id db) \<Longrightarrow> d \<in> set db \<Longrightarrow> findById (user_id d) db = Some d"
  by (induction db) (auto simp: findById_def findOne_def)

lemma findOneAndUpdate_no_match:
  "\<forall>d\<in>set db. \<not> flt d \<Longrightarrow> findOneAndUpdate flt upd db = (None, db)"
  by (induction db) auto

lemma map_update_absent:
  "i \<notin> user_id ` set db \<Longrightarrow> map (\<lambda>x. if user_id x = i then upd x else x) db = db"
  by (induction db) auto

lemma findOneAndUpdate_by_id:
  assumes "distinct (map user_id db)"
  shows "findOneAndUpdate (\<lambda>d. user_id d = i \<and> Q d) upd db =
     (case findById i db of
        None \<Rightarrow> (None, db)
      | Some d \<Rightarrow>
          if Q d then (Some (upd d), map (\<lambda>x. if user_id x = i then upd x else x) db)
          else (None, db))"
  using assms
proof (induction db)
  case Nil
  show ?case by (simp add: findById_def findOne_def)
next
  case (Cons d ds)
  show ?case
  proof (cases "user_id d = i")
    case True
    with Cons.prems have absent: "i \<notin> user_id ` set ds" by auto
    then have "\<forall>x\<in>set ds. \<not> (user_id x = i \<and> Q x)" by auto
    then have "findOneAndUpdate (\<lambda>d. user_id d = i \<and> Q d) upd ds = (None, ds)"
      by (rule findOneAndUpdate_no_match)
    with True absent show ?thesis
      by (simp add: findById_def findOne_def map_update_absent)
  next
    case False
    with Cons show ?thesis
      by (simp add: findById_def findOne_def split: option.splits)
  qed
qed

lemma findById_map_update:
  assumes "\<And>d. user_id (upd d) = user_id d"
  shows "findById j (map (\<lambda>x. if user_id x = i then upd x else x) db) =
     map_option (\<lambda>x. if user_id x = i then upd x else x) (findById j db)"
  by (induction db) (auto simp: findById_def findOne_def assms)

lemma ids_map_update:
  assumes "\<And>d. user_id (upd d) = user_id d"
  shows "map user_id (map (\<lambda>x. if user_id x = i then upd x else x) db) = map user_id db"
  by (induction db) (auto simp: assms)

lemma wf_store_distinct: "wf_store db \<Longrightarrow> distinct (map user_id db)"
  by (simp add: wf_store_def)

lemma findOneAndUpdate_update_by_id:
  assumes "distinct (map user_id db)"
  shows "findOneAndUpdate (\<lambda>d. user_id d = i \<and> Q d) upd db =
     (case findById i db of
        None \<Rightarrow> (None, db)
      | Some d \<Rightarrow> if Q d then (Some (upd d), update_by_id i upd db) else (None, db))"
  unfolding update_by_id_def using assms by (rule findOneAndUpdate_by_id)

lemma ids_update_by_id:
  assumes "\<And>d. user_id (upd d) = user_id d"
  shows "map user_id (update_by_id i upd db) = map user_id db"
  unfolding update_by_id_def using assms by (rule ids_map_update)

lemma findById_update_by_id:
  assumes "\<And>d. user_id (upd d) = user_id d"
  shows "findById j (update_by_id i upd db) =
     map_option (\<lambda>x. if j = i then upd x else x) (findById j db)"
proof (cases "findById j db")
  case None
  then show ?thesis
    unfolding update_by_id_def by (simp add: findById_map_update assms)
next
  case (Some d)
  then have "user_id d = j" by (simp add: findById_Some)
  with Some show ?thesis
    unfolding update_by_id_def by (simp add: findById_map_update assms)
qed

lemma user_id_push_pull [simp]:
  "user_id (push_followings e d) = user_id d"
  "user_id (push_followers e' d) = user_id d"
  "user_id (pull_followings i d) = user_id d"
  "user_id (pull_followers i d) = user_id d"
  by (simp_all add: push_followings_def push_followers_def pull_followings_def pull_followers_def)

lemma followUser_steps:
  assumes "distinct (map user_id db)"
    and "isValidObjectId userId" and "isValidObjectId followId" and "userId \<noteq> followId"
  shows "followUser userId followId now1 now2 db =
     (case findById (createFromHexString userId) db of
        None \<Rightarrow> (Inl (Error ERROR_UPDATE_FOLLOWING), db)
      | Some du \<Rightarrow>
          if createFromHexString followId \<in> followings_followingId ` set (followings du)
          then (Inl (Error ERROR_UPDATE_FOLLOWING), db)
          else
            (let db1 = update_by_id (createFromHexString userId)
                   (push_followings \<lparr>followings_followingId = createFromHexString followId,
                        followings_date = now1\<rparr>) db
             in case findById (createFromHexString followId) db1 of
                  None \<Rightarrow> (Inl (Error ERROR_UPDATE_FOLLOWERS), db1)
                | Some df \<Rightarrow>
                    if createFromHexString userId \<in> followers_followId ` set (followers df)
                    then (Inl (Error ERROR_UPDATE_FOLLOWERS), db1)
                    else (Inr (getSuccessResponse 200 UPDATE_FOLLOW None),
                          update_by_id (createFromHexString followId)
                            (push_followers \<lparr>followers_followId = createFromHexString userId,
                                 followers_date = now2\<rparr>) db1)))"
proof -
  let ?db1 = "update_by_id (createFromHexString userId)
                   (push_followings \<lparr>followings_followingId = createFromHexString followId,
                        followings_date = now1\<rparr>) db"
  have "map user_id ?db1 = map user_id db"
    by (rule ids_update_by_id) simp
  with assms(1) have d1: "distinct (map user_id ?db1)"
    by simp
  show ?thesis
    using assms(2-4)
    by (simp add: followUser_def findOneAndUpdate_update_by_id [OF assms(1)]
        findOneAndUpdate_update_by_id [OF d1] Let_def split: option.splits)
qed

lemma unfollowUser_steps:
  assumes "distinct (map user_id db)"
    and "isValidObjectId userId" and "isValidObjectId unfollowId" and "userId \<noteq> unfollowId"
  shows "unfollowUser userId unfollowId db =
     (case findById (createFromHexString userId) db of
        None \<Rightarrow> (Inl (Error ERROR_UPDATE_UNFOLLOWING), db)
      | Some du \<Rightarrow>
          if createFromHexString unfollowId \<notin> followings_followingId ` set (followings du)
          then (Inl (Error ERROR_UPDATE_UNFOLLOWING), db)
          else
            (let db1 = update_by_id (createFromHexString userId)
                   (pull_followings (createFromHexString unfollowId)) db
             in case findById (createFromHexString unfollowId) db1 of
                  None \<Rightarrow> (Inl (Error ERROR_UPDATE_UNFOLLOWERS), db1)
                | Some df \<Rightarrow>
                    if createFromHexString userId \<notin> followers_followId ` set (followers df)
                    then (Inl (Error ERROR_UPDATE_UNFOLLOWERS), db1)
                    else (Inr (getSuccessResponse 200 UPDATE_UNFOLLOW None),
                          update_by_id (createFromHexString unfollowId)
                            (pull_followers (createFromHexString userId)) db1)))"
proof -
  let ?db1 = "update_by_id (createFromHexString userId)
                   (pull_followings (createFromHexString unfollowId)) db"
  have "map user_id ?db1 = map user_id db"
    by (rule ids_update_by_id) simp
  with assms(1) have d1: "distinct (map user_id ?db1)"
    by simp
  show ?thesis
    using assms(2-4)
    by (simp add: unfollowUser_def findOneAndUpdate_update_by_id [OF assms(1)]
        findOneAndUpdate_update_by_id [OF d1] Let_def split: option.splits)
qed

lemma followers_push_pull [simp]:
  "followers (push_followings e d) = followers d"
  "followers (pull_followings i d) = followers d"
  "followers (push_followers e' d) = followers d @ [e']"
  "followers (pull_followers i d) = filter (\<lambda>e. followers_followId e \<noteq> i) (followers d)"
  by (simp_all add: push_followings_def push_followers_def pull_followings_def pull_followers_def)

lemma followings_push_pull [simp]:
  "followings (push_followers e' d) = followings d"
  "followings (pull_followers i d) = followings d"
  "followings (push_followings e d) = followings d @ [e]"
  "followings (pull_followings i d) = filter (\<lambda>e. followings_followingId e \<noteq> i) (followings d)"
  by (simp_all add: push_followings_def push_followers_def pull_followings_def pull_followers_def)

lemma followUser_valid:
  assumes "followUser userId followId now1 now2 db = (Inr r, db')"
  shows "isValidObjectId userId \<and> isValidObjectId followId \<and> userId \<noteq> followId"
  using assms by (auto simp: followUser_def split: if_splits)

lemma followUser_success:
  assumes "distinct (map user_id db)"
    and "followUser userId followId now1 now2 db = (Inr r, db')"
  obtains du df where
    "findById (createFromHexString userId) db = Some du"
    "createFromHexString followId \<notin> followings_followingId ` set (followings du)"
    "findById (createFromHexString followId) db = Some df"
    "createFromHexString userId \<notin> followers_followId ` set (followers df)"
    "db' = update_by_id (createFromHexString followId)
             (push_followers \<lparr>followers_followId = createFromHexString userId,
                              followers_date = now2\<rparr>)
             (update_by_id (createFromHexString userId)
                (push_followings \<lparr>followings_followingId = createFromHexString followId,
                                  followings_date = now1\<rparr>) db)"
    "r = getSuccessResponse 200 UPDATE_FOLLOW None"
proof -
  note v = followUser_valid [OF assms(2)]
  from v have steps: "followUser userId followId now1 now2 db = (Inr r, db')" 
    using assms(2) by simp
  show ?thesis
    using assms(2) that
    unfolding followUser_steps [OF assms(1) v [THEN conjunct1] v [THEN conjunct2, THEN conjunct1]
        v [THEN conjunct2, THEN conjunct2]]
    by (auto simp: Let_def findById_update_by_id split: option.splits if_splits)
qed

lemma update_by_id_cong:
  assumes "\<And>x. x \<in> set db \<Longrightarrow> user_id x = i \<Longrightarrow> upd x = upd' x"
  shows "update_by_id i upd db = update_by_id i upd' db"
  unfolding update_by_id_def using assms by (induction db) auto

lemma update_by_id_id:
  assumes "\<And>x. x \<in> set db \<Longrightarrow> user_id x = i \<Longrightarrow> upd x = x"
  shows "update_by_id i upd db = db"
  unfolding update_by_id_def using assms by (induction db) auto

lemma update_by_id_commute_fields:
  assumes "\<And>x. user_id (f x) = user_id x" "\<And>x. user_id (g x) = user_id x"
    and "\<And>x. f (g x) = g (f x)"
  shows "update_by_id i f (update_by_id j g db) = update_by_id j g (update_by_id i f db)"
  unfolding update_by_id_def using assms by (induction db) auto

lemma update_by_id_twice:
  assumes "\<And>x. user_id (f x) = user_id x"
  shows "update_by_id i g (update_by_id i f db) = update_by_id i (g \<circ> f) db"
  unfolding update_by_id_def using assms by (induction db) auto

lemma pull_push_followings:
  "i \<notin> followings_followingId ` set (followings d) \<Longrightarrow>
   pull_followings i (push_followings \<lparr>followings_followingId = i, followings_date = t\<rparr> d) = d"
proof -
  assume "i \<notin> followings_followingId ` set (followings d)"
  then have "filter (\<lambda>e. followings_followingId e \<noteq> i) (followings d) = followings d"
    by (intro filter_True) auto
  then show ?thesis
    by (simp add: pull_followings_def push_followings_def)
qed

lemma pull_push_followers:
  "i \<notin> followers_followId ` set (followers d) \<Longrightarrow>
   pull_followers i (push_followers \<lparr>followers_followId = i, followers_date = t\<rparr> d) = d"
proof -
  assume "i \<notin> followers_followId ` set (followers d)"
  then have "filter (\<lambda>e. followers_followId e \<noteq> i) (followers d) = followers d"
    by (intro filter_True) auto
  then show ?thesis
    by (simp add: pull_followers_def push_followers_def)
qed

lemma push_pull_commute:
  "pull_followings i (push_followers e d) = push_followers e (pull_followings i d)"
  "pull_followers j (push_followings e' d) = push_followings e' (pull_followers j d)"
  by (simp_all add: pull_followings_def push_followers_def pull_followers_def
      push_followings_def)

lemma filter_key_absent: "i \<notin> f ` set xs \<Longrightarrow> filter (\<lambda>e. f e = i) xs = []"
  by (induction xs) auto

lemma length_filter_key_distinct:
  "distinct (map f xs) \<Longrightarrow> i \<in> f ` set xs \<Longrightarrow> length (filter (\<lambda>e. f e = i) xs) = 1"
  by (induction xs) (auto simp: filter_key_absent)

lemma wf_store_followings:
  "wf_store db \<Longrightarrow> d \<in> set db \<Longrightarrow> distinct (map followings_followingId (followings d))"
  by (simp add: wf_store_def list_all_iff)

lemma followers_update_by_id:
  assumes "\<And>d. followers (upd d) = followers d"
  shows "map followers (update_by_id i upd db) = map followers db"
  unfolding update_by_id_def by (induction db) (auto simp: assms)

section \<open>The invariant of the collection\<close>

text \<open>
  \<open>wf_store\<close> holds of the empty collection and every controller that writes keeps it.
\<close>

lemma wf_store_update_by_id:
  assumes "wf_store db" and "\<And>d. user_id (upd d) = user_id d"
    and "\<And>d. d \<in> set db \<Longrightarrow> user_id d = i \<Longrightarrow>
           distinct (map followings_followingId (followings (upd d))) \<and>
           distinct (map followers_followId (followers (upd d)))"
  shows "wf_store (update_by_id i upd db)"
proof -
  have "map user_id (update_by_id i upd db) = map user_id db"
    using assms(2) by (rule ids_update_by_id)
  moreover have "set (update_by_id i upd db) \<subseteq> set db \<union> upd ` {d \<in> set db. user_id d = i}"
    by (auto simp: update_by_id_def)
  ultimately show ?thesis
    using assms(1,3) unfolding wf_store_def list_all_iff by fastforce
qed

lemma wf_store_empty: "wf_store []"
  by (simp add: wf_store_def)

lemma wf_store_followers:
  "wf_store db \<Longrightarrow> d \<in> set db \<Longrightarrow> distinct (map followers_followId (followers d))"
  by (simp add: wf_store_def list_all_iff)

lemma wf_store_push_followings:
  assumes "wf_store db" and "findById i db = Some du"
    and "j \<notin> followings_followingId ` set (followings du)"
  shows "wf_store (update_by_id i
           (push_followings \<lparr>followings_followingId = j, followings_date = t\<rparr>) db)"
proof (rule wf_store_update_by_id [OF assms(1)])
  fix d
  assume d: "d \<in> set db" "user_id d = i"
  with assms(1,2) have "d = du"
    using findById_distinct [OF wf_store_distinct [OF assms(1)] d(1)] by simp
  with assms d show "distinct (map followings_followingId (followings
      (push_followings \<lparr>followings_followingId = j, followings_date = t\<rparr> d))) \<and>
    distinct (map followers_followId (followers
      (push_followings \<lparr>followings_followingId = j, followings_date = t\<rparr> d)))"
    by (simp add: wf_store_followings wf_store_followers)
qed simp

lemma wf_store_push_followers:
  assumes "wf_store db" and "findById i db = Some df"
    and "j \<notin> followers_followId ` set (followers df)"
  shows "wf_store (update_by_id i
           (push_followers \<lparr>followers_followId = j, followers_date = t\<rparr>) db)"
proof (rule wf_store_update_by_id [OF assms(1)])
  fix d
  assume d: "d \<in> set db" "user_id d = i"
  with assms(1,2) have "d = df"
    using findById_distinct [OF wf_store_distinct [OF assms(1)] d(1)] by simp
  with assms d show "distinct (map followings_followingId (followings
      (push_followers \<lparr>followers_followId = j, followers_date = t\<rparr> d))) \<and>
    distinct (map followers_followId (followers
      (push_followers \<lparr>followers_followId = j, followers_date = t\<rparr> d)))"
    by (simp add: wf_store_followings wf_store_followers)
qed simp

lemma wf_store_pull:
  assumes "wf_store db"
  shows "wf_store (update_by_id i (pull_followings j) db)"
    and "wf_store (update_by_id i (pull_followers j) db)"
  by (rule wf_store_update_by_id [OF assms];
      simp add: wf_store_followings [OF assms] wf_store_followers [OF assms] distinct_map_filter)+

lemma wf_store_followUser:
  assumes "wf_store db"
  shows "wf_store (snd (followUser userId followId now1 now2 db))"
proof (cases "isValidObjectId userId \<and> isValidObjectId followId \<and> userId \<noteq> followId")
  case False
  with assms show ?thesis
    by (auto simp: followUser_def)
next
  case True
  note d = wf_store_distinct [OF assms]
  show ?thesis
  proof (cases "findById (createFromHexString userId) db")
    case None
    with True assms show ?thesis
      by (simp add: followUser_steps [OF d])
  next
    case (Some du)
    show ?thesis
    proof (cases "createFromHexString followId \<in> followings_followingId ` set (followings du)")
      case present: True
      with True Some assms show ?thesis
        by (simp add: followUser_steps [OF d])
    next
      case absent: False
      let ?db1 = "update_by_id (createFromHexString userId)
          (push_followings \<lparr>followings_followingId = createFromHexString followId,
             followings_date = now1\<rparr>) db"
      from assms Some absent have wf1: "wf_store ?db1"
        by (rule wf_store_push_followings)
      show ?thesis
      proof (cases "findById (createFromHexString followId) ?db1")
        case None
        with True Some absent wf1 show ?thesis
          by (simp add: followUser_steps [OF d] Let_def)
      next
        case df: (Some df)
        show ?thesis
        proof (cases "createFromHexString userId \<in> followers_followId ` set (followers df)")
          case True
          with \<open>isValidObjectId userId \<and> isValidObjectId followId \<and> userId \<noteq> followId\<close>
            Some absent df wf1 show ?thesis
            by (simp add: followUser_steps [OF d] Let_def)
        next
          case False
          with wf1 df have "wf_store (update_by_id (createFromHexString followId)
              (push_followers \<lparr>followers_followId = createFromHexString userId,
                 followers_date = now2\<rparr>) ?db1)"
            by (rule wf_store_push_followers)
          with True Some absent df False show ?thesis
            by (simp add: followUser_steps [OF d] Let_def)
        qed
      qed
    qed
  qed
qed

lemma wf_store_unfollowUser:
  assumes "wf_store db"
  shows "wf_store (snd (unfollowUser userId unfollowId db))"
proof (cases "isValidObjectId userId \<and> isValidObjectId unfollowId \<and> userId \<noteq> unfollowId")
  case False
  with assms show ?thesis
    by (auto simp: unfollowUser_def)
next
  case True
  note d = wf_store_distinct [OF assms]
  note w1 = wf_store_pull(1) [OF assms, of "createFromHexString userId"
      "createFromHexString unfollowId"]
  note w2 = wf_store_pull(2) [OF w1, of "createFromHexString unfollowId"
      "createFromHexString userId"]
  from True assms w1 w2 show ?thesis
    by (simp add: unfollowUser_steps [OF d] Let_def split: option.splits)
qed

lemma wf_store_createUser:
  assumes "wf_store db"
  shows "wf_store (snd (createUser uname newId db))"
  using assms
  by (auto simp: createUser_def create_def Let_def wf_store_def split: option.splits)

section \<open>The calendar\<close>

text \<open>
  The conversion of a day number to a date agrees with the textbook calendar: the date it
  gives exists and is the given number of days from 1970-01-01. Later days have later
  dates, and the texts of the dates are ordered as the days are.
\<close>

lemmas civil_defs = civil_from_days_def civil_year_def civil_month_def civil_day_def
  month_from_march_def year_from_march_def day_of_year_def year_of_cycle_def day_of_cycle_def
  cycle_of_century_def day_of_century_def century_of_era_def day_of_era_def

lemma civil_sample:
  "civil_from_days 19924 = (2024, 7, 20)"
  "civil_from_days 19782 = (2024, 2, 29)"
  "civil_from_days (- 719528) = (0, 1, 1)"
  "civil_from_days 2932896 = (9999, 12, 31)"
  by (simp_all add: civil_defs)

subsection \<open>Leap years and the lengths of years\<close>

lemma div_step:
  fixes y k :: int
  assumes "0 < k"
  shows "y div k = (y - 1) div k + (if y mod k = 0 then 1 else 0)"
proof (cases "y mod k = 0")
  case True
  have "y - 1 = k * (y div k - 1) + (k - 1)"
    using True by (simp add: algebra_simps) (metis mult_div_mod_eq add.right_neutral mult.commute)
  then have "(y - 1) div k = y div k - 1"
    using assms by (intro int_div_pos_eq [where r = "k - 1"]) auto
  with True show ?thesis by simp
next
  case False
  have "0 \<le> y mod k" "y mod k < k"
    using assms by simp_all
  with False have r: "0 \<le> y mod k - 1" "y mod k - 1 < k"
    by linarith+
  have "y - 1 = k * (y div k) + (y mod k - 1)"
    by simp
  then have "(y - 1) div k = y div k"
    using r by (intro int_div_pos_eq [where r = "y mod k - 1"]) auto
  with False show ?thesis by simp
qed

lemma mod_100_4: "(y::int) mod 100 = 0 \<Longrightarrow> y mod 4 = 0"
proof -
  assume "y mod 100 = 0"
  then have "100 dvd y" by (simp add: dvd_eq_mod_eq_0)
  moreover have "(4::int) dvd 100" by simp
  ultimately have "4 dvd y" by (rule dvd_trans [rotated])
  then show ?thesis by (simp add: dvd_eq_mod_eq_0)
qed

lemma mod_400_100: "(y::int) mod 400 = 0 \<Longrightarrow> y mod 100 = 0"
proof -
  assume "y mod 400 = 0"
  then have "400 dvd y" by (simp add: dvd_eq_mod_eq_0)
  moreover have "(100::int) dvd 400" by simp
  ultimately have "100 dvd y" by (rule dvd_trans [rotated])
  then show ?thesis by (simp add: dvd_eq_mod_eq_0)
qed

lemma leap_indicator:
  "(if y mod 4 = 0 then 1 else 0) - (if y mod 100 = 0 then 1 else 0) +
   (if y mod 400 = 0 then 1 else 0) = (if leap_year y then (1::int) else 0)"
proof (cases "y mod 400 = 0")
  case True
  then have "y mod 100 = 0" by (rule mod_400_100)
  then have "y mod 4 = 0" by (rule mod_100_4)
  with True \<open>y mod 100 = 0\<close> show ?thesis by (simp add: leap_year_def)
next
  case False
  show ?thesis
  proof (cases "y mod 100 = 0")
    case True
    then have "y mod 4 = 0" by (rule mod_100_4)
    with True False show ?thesis by (simp add: leap_year_def)
  next
    case False
    with \<open>y mod 400 \<noteq> 0\<close> show ?thesis by (simp add: leap_year_def)
  qed
qed

lemma leap_count:
  "y div 4 - y div 100 + y div 400 = leap_years_before y + (if leap_year y then 1 else 0)"
proof -
  define a b c where "a = (y - 1) div 4" and "b = (y - 1) div 100" and "c = (y - 1) div 400"
  define i j k :: int where "i = (if y mod 4 = 0 then 1 else 0)"
    and "j = (if y mod 100 = 0 then 1 else 0)" and "k = (if y mod 400 = 0 then 1 else 0)"
  have "y div 4 = a + i" "y div 100 = b + j" "y div 400 = c + k"
    unfolding a_def b_def c_def i_def j_def k_def by (rule div_step, simp)+
  moreover have "i - j + k = (if leap_year y then 1 else 0)"
    unfolding i_def j_def k_def by (rule leap_indicator)
  moreover have "leap_years_before y = a - b + c"
    by (simp only: leap_years_before_def a_def b_def c_def)
  ultimately show ?thesis
    by (simp only:)
qed

lemma leap_years_before_Suc:
  "leap_years_before (y + 1) = leap_years_before y + (if leap_year y then 1 else 0)"
proof -
  have "leap_years_before (y + 1) = y div 4 - y div 100 + y div 400"
    by (simp add: leap_years_before_def)
  then show ?thesis
    by (simp only: leap_count)
qed

lemma days_before_year_1970: "days_before_year 1970 = 0"
  by (simp add: days_before_year_def)

lemma days_before_year_Suc:
  "days_before_year (y + 1) = days_before_year y + (if leap_year y then 366 else 365)"
proof -
  define l where "l = leap_years_before y"
  have "leap_years_before (y + 1) = l + (if leap_year y then 1 else 0)"
    unfolding l_def by (rule leap_years_before_Suc)
  then show ?thesis
    unfolding days_before_year_def l_def [symmetric] by simp
qed

subsection \<open>Eras, centuries and cycles\<close>

lemma capped_div:
  fixes e k cap :: int
  assumes "0 < k" "0 \<le> cap" "0 \<le> e" "e \<le> k * cap + k"
  shows "0 \<le> min (e div k) cap \<and> min (e div k) cap \<le> cap \<and>
         0 \<le> e - k * min (e div k) cap \<and> e - k * min (e div k) cap \<le> k \<and>
         (min (e div k) cap < cap \<longrightarrow> e - k * min (e div k) cap < k)"
proof (cases "e div k \<le> cap")
  case True
  have "0 \<le> e div k"
    using assms(1,3) by (simp add: pos_imp_zdiv_nonneg_iff)
  moreover have "e - k * (e div k) = e mod k"
    by (simp add: minus_mult_div_eq_mod)
  moreover have "0 \<le> e mod k" "e mod k < k"
    using assms(1) by simp_all
  ultimately show ?thesis
    using True by (simp add: min_def)
next
  case False
  then have "cap + 1 \<le> e div k" by simp
  then have "k * (cap + 1) \<le> k * (e div k)"
    using assms(1) by (intro mult_left_mono) simp_all
  also have "\<dots> = e - e mod k"
    by (simp add: minus_mod_eq_mult_div)
  also have "\<dots> \<le> e"
    using assms(1) by simp
  finally have "k * cap + k \<le> e"
    by (simp add: algebra_simps)
  with assms False show ?thesis
    by (simp add: min_def)
qed

text \<open>The decomposition of a day number counted from 0000-03-01.\<close>

lemma era_decomposition:
  fixes n :: int
  defines "c \<equiv> century_of_era n" and "q \<equiv> cycle_of_century n" and "r \<equiv> year_of_cycle n"
    and "doy \<equiv> day_of_year n"
  shows "n = 146097 * (n div 146097) + 36524 * c + 1461 * q + 365 * r + doy"
    and "0 \<le> c \<and> c \<le> 3" and "0 \<le> q \<and> q \<le> 24" and "0 \<le> r \<and> r \<le> 3"
    and "0 \<le> doy \<and> doy \<le> 365"
    and "doy = 365 \<longrightarrow> r = 3 \<and> (q < 24 \<or> c = 3)"
proof -
  define e where "e = day_of_era n"
  define doc where "doc = day_of_century n"
  define docy where "docy = day_of_cycle n"
  have e: "0 \<le> e" "e \<le> 146096" "n = 146097 * (n div 146097) + e"
    by (simp_all add: e_def day_of_era_def)
  have c_eq: "c = min (e div 36524) 3" and doc_eq: "doc = e - 36524 * c"
    by (simp_all add: c_def century_of_era_def e_def doc_def day_of_century_def)
  have q_eq: "q = min (doc div 1461) 24" and docy_eq: "docy = doc - 1461 * q"
    by (simp_all add: q_def cycle_of_century_def doc_def docy_def day_of_cycle_def)
  have r_eq: "r = min (docy div 365) 3" and doy_eq: "doy = docy - 365 * r"
    by (simp_all add: r_def year_of_cycle_def docy_def doy_def day_of_year_def)
  have c: "0 \<le> c" "c \<le> 3" "0 \<le> doc" "doc \<le> 36524" "c < 3 \<longrightarrow> doc < 36524"
    using capped_div [of 36524 3 e] e(1,2) unfolding c_eq doc_eq by simp_all
  have q: "0 \<le> q" "q \<le> 24" "0 \<le> docy" "docy \<le> 1461" "q < 24 \<longrightarrow> docy < 1461"
    using capped_div [of 1461 24 doc] c(3,4) unfolding q_eq docy_eq by simp_all
  have docy_le: "docy \<le> 1460" and docy_lt: "q = 24 \<and> c < 3 \<longrightarrow> docy \<le> 1459"
    using q c(4,5) docy_eq by linarith+
  have r: "0 \<le> r" "r \<le> 3" "0 \<le> doy" "doy \<le> 365" "r < 3 \<longrightarrow> doy < 365"
    using capped_div [of 365 3 docy] q(3) docy_le unfolding r_eq doy_eq by simp_all
  show "n = 146097 * (n div 146097) + 36524 * c + 1461 * q + 365 * r + doy"
    using e(3) doc_eq docy_eq doy_eq by linarith
  show "0 \<le> c \<and> c \<le> 3" "0 \<le> q \<and> q \<le> 24" "0 \<le> r \<and> r \<le> 3" "0 \<le> doy \<and> doy \<le> 365"
    using c q r by simp_all
  show "doy = 365 \<longrightarrow> r = 3 \<and> (q < 24 \<or> c = 3)"
    using r c(2) q(2) docy_lt doy_eq by linarith
qed

subsection \<open>Months\<close>

lemma month_index:
  fixes doy k :: int
  assumes "153 * k \<le> 5 * doy + 2" "5 * doy + 2 < 153 * k + 153"
  shows "(5 * doy + 2) div 153 = k"
proof -
  have "5 * doy + 2 = 153 * k + (5 * doy + 2 - 153 * k)"
    by simp
  then show ?thesis
    using assms by (intro int_div_pos_eq [where r = "5 * doy + 2 - 153 * k"]) simp_all
qed

lemma days_before_month_table:
  "days_before_month y 1 = 0"
  "days_before_month y 2 = 31"
  "days_before_month y 3 = 59 + (if leap_year y then 1 else 0)"
  "days_before_month y 4 = 90 + (if leap_year y then 1 else 0)"
  "days_before_month y 5 = 120 + (if leap_year y then 1 else 0)"
  "days_before_month y 6 = 151 + (if leap_year y then 1 else 0)"
  "days_before_month y 7 = 181 + (if leap_year y then 1 else 0)"
  "days_before_month y 8 = 212 + (if leap_year y then 1 else 0)"
  "days_before_month y 9 = 243 + (if leap_year y then 1 else 0)"
  "days_before_month y 10 = 273 + (if leap_year y then 1 else 0)"
  "days_before_month y 11 = 304 + (if leap_year y then 1 else 0)"
  "days_before_month y 12 = 334 + (if leap_year y then 1 else 0)"
  by (simp_all add: days_before_month_def days_in_month_def upto_rec1)

lemma month_split:
  fixes doy y :: int
  assumes "0 \<le> doy" "doy \<le> 365"
  defines "mp \<equiv> (5 * doy + 2) div 153"
  defines "d \<equiv> doy - (153 * mp + 2) div 5 + 1"
  defines "m \<equiv> (if mp < 10 then mp + 3 else mp - 9)"
  shows "1 \<le> m \<and> m \<le> 12 \<and> 1 \<le> d \<and> (m \<le> 2) = (306 \<le> doy) \<and>
         (m \<noteq> 2 \<longrightarrow> d \<le> days_in_month y m) \<and> (m = 2 \<longrightarrow> d = doy - 336) \<and>
         days_before_month y m + (d - 1) =
           (if m \<le> 2 then doy - 306 else 59 + (if leap_year y then 1 else 0) + doy)"
proof -
  consider "doy \<le> 30" | "31 \<le> doy \<and> doy \<le> 60" | "61 \<le> doy \<and> doy \<le> 91"
    | "92 \<le> doy \<and> doy \<le> 121" | "122 \<le> doy \<and> doy \<le> 152" | "153 \<le> doy \<and> doy \<le> 183"
    | "184 \<le> doy \<and> doy \<le> 213" | "214 \<le> doy \<and> doy \<le> 244" | "245 \<le> doy \<and> doy \<le> 274"
    | "275 \<le> doy \<and> doy \<le> 305" | "306 \<le> doy \<and> doy \<le> 336" | "337 \<le> doy"
    by linarith
  then show ?thesis
  proof cases
    case 1
    with assms(1) have "mp = 0" unfolding mp_def by (intro month_index) simp_all
    with 1 assms(1) show ?thesis
      by (simp add: d_def m_def days_before_month_table days_in_month_def)
  next
    case 2
    then have "mp = 1" unfolding mp_def by (intro month_index) simp_all
    with 2 show ?thesis
      by (simp add: d_def m_def days_before_month_table days_in_month_def)
  next
    case 3
    then have "mp = 2" unfolding mp_def by (intro month_index) simp_all
    with 3 show ?thesis
      by (simp add: d_def m_def days_before_month_table days_in_month_def)
  next
    case 4
    then have "mp = 3" unfolding mp_def by (intro month_index) simp_all
    with 4 show ?thesis
      by (simp add: d_def m_def days_before_month_table days_in_month_def)
  next
    case 5
    then have "mp = 4" unfolding mp_def by (intro month_index) simp_all
    with 5 show ?thesis
      by (simp add: d_def m_def days_before_month_table days_in_month_def)
  next
    case 6
    then have "mp = 5" unfolding mp_def by (intro month_index) simp_all
    with 6 show ?thesis
      by (simp add: d_def m_def days_before_month_table days_in_month_def)
  next
    case 7
    then have "mp = 6" unfolding mp_def by (intro month_index) simp_all
    with 7 show ?thesis
      by (simp add: d_def m_def days_before_month_table days_in_month_def)
  next
    case 8
    then have "mp = 7" unfolding mp_def by (intro month_index) simp_all
    with 8 show ?thesis
      by (simp add: d_def m_def days_before_month_table days_in_month_def)
  next
    case 9
    then have "mp = 8" unfolding mp_def by (intro month_index) simp_all
    with 9 show ?thesis
      by (simp add: d_def m_def days_before_month_table days_in_month_def)
  next
    case 10
    then have "mp = 9" unfolding mp_def by (intro month_index) simp_all
    with 10 show ?thesis
      by (simp add: d_def m_def days_before_month_table days_in_month_def)
  next
    case 11
    then have "mp = 10" unfolding mp_def by (intro month_index) simp_all
    with 11 show ?thesis
      by (simp add: d_def m_def days_before_month_table days_in_month_def)
  next
    case 12
    with assms(2) have "mp = 11" unfolding mp_def by (intro month_index) simp_all
    with 12 assms(2) show ?thesis
      by (simp add: d_def m_def days_before_month_table days_in_month_def)
  qed
qed

subsection \<open>The conversion gives the date of the day\<close>

lemma leap_years_before_1970: "leap_years_before 1970 = 477"
  by (simp add: leap_years_before_def)

lemma div_eqI:
  fixes a b q r :: int
  assumes "a = b * q + r" "0 \<le> r" "r < b"
  shows "a div b = q" and "a mod b = r"
  using assms by (auto intro: int_div_pos_eq int_mod_pos_eq)

lemma civil_from_days_correct:
  "valid_date (civil_year n) (civil_month n) (civil_day n) \<and>
   days_from_civil (civil_year n) (civil_month n) (civil_day n) = n - 719468"
proof -
  define era where "era = n div 146097"
  define c q r doy where "c = century_of_era n" and "q = cycle_of_century n"
    and "r = year_of_cycle n" and "doy = day_of_year n"
  define Y where "Y = year_from_march n"
  define m d y where "m = civil_month n" and "d = civil_day n" and "y = civil_year n"
  note dec = era_decomposition [of n, folded c_def q_def r_def doy_def era_def]
  have Y: "Y = 400 * era + 100 * c + 4 * q + r"
    by (simp add: Y_def year_from_march_def era_def c_def q_def r_def)
  have y: "y = Y + (if m \<le> 2 then 1 else 0)"
    by (simp add: y_def civil_year_def Y_def m_def)
  from dec(5) have doy: "0 \<le> day_of_year n" "day_of_year n \<le> 365"
    by (simp_all add: doy_def)
  have split: "1 \<le> m \<and> m \<le> 12 \<and> 1 \<le> d \<and> (m \<le> 2) = (306 \<le> doy) \<and>
         (m \<noteq> 2 \<longrightarrow> d \<le> days_in_month y m) \<and> (m = 2 \<longrightarrow> d = doy - 336) \<and>
         days_before_month y m + (d - 1) =
           (if m \<le> 2 then doy - 306 else 59 + (if leap_year y then 1 else 0) + doy)"
    unfolding m_def d_def doy_def civil_month_def civil_day_def month_from_march_def
    by (rule month_split [OF doy])
  have Y4: "Y div 4 = 100 * era + 25 * c + q"
    using dec(4) by (intro div_eqI(1) [where r = r]) (simp_all add: Y)
  have Y100: "Y div 100 = 4 * era + c"
    using dec(3,4) by (intro div_eqI(1) [where r = "4 * q + r"]) (simp_all add: Y)
  have Y400: "Y div 400 = era"
    using dec(2,3,4) by (intro div_eqI(1) [where r = "100 * c + 4 * q + r"]) (simp_all add: Y)
  have leaps: "leap_years_before Y + (if leap_year Y then 1 else 0) = 97 * era + 24 * c + q"
    using leap_count [of Y] Y4 Y100 Y400 by simp
  have leaps': "leap_years_before (Y + 1) = 97 * era + 24 * c + q"
    using leap_years_before_Suc [of Y] leaps by simp
  have days: "days_from_civil y m d = n - 719468"
  proof (cases "m \<le> 2")
    case True
    then have "y = Y + 1" using y by simp
    then have "days_from_civil y m d =
        365 * (Y + 1 - 1970) + (97 * era + 24 * c + q - 477) + (doy - 306)"
      using split True
      by (simp add: days_from_civil_def days_before_year_def leaps' leap_years_before_1970)
    also have "\<dots> = n - 719468"
      using dec(1) Y by simp
    finally show ?thesis .
  next
    case False
    then have yY: "y = Y" using y by simp
    define l where "l = leap_years_before Y"
    define i :: int where "i = (if leap_year Y then 1 else 0)"
    have li: "l + i = 97 * era + 24 * c + q"
      using leaps by (simp add: l_def i_def)
    have "days_from_civil y m d = 365 * (Y - 1970) + (l - 477) + (59 + i + doy)"
      using split False yY
      by (simp add: days_from_civil_def days_before_year_def leap_years_before_1970 l_def i_def)
    also have "\<dots> = n - 719468"
    proof -
      from li have "i = 97 * era + 24 * c + q - l" by simp
      then show ?thesis
        using dec(1) by (simp add: Y)
    qed
    finally show ?thesis .
  qed
  have feb: "d \<le> days_in_month y m" if "m = 2"
  proof -
    from that split have d: "d = doy - 336" and yY: "y = Y + 1"
      using y by simp_all
    show ?thesis
    proof (cases "doy = 365")
      case False
      with dec(5) have "doy \<le> 364" by simp
      with d that show ?thesis
        by (simp add: days_in_month_def)
    next
      case True
      with dec(6) have r3: "r = 3" and qc: "q < 24 \<or> c = 3" by simp_all
      have m4: "y mod 4 = 0"
        by (rule div_eqI(2) [where q = "100 * era + 25 * c + q + 1"])
          (simp_all add: yY Y r3)
      have "leap_year y"
      proof (cases "q < 24")
        case True
        have "y mod 100 = 4 * q + 4"
          using True dec(3)
          by (intro div_eqI(2) [where q = "4 * era + c"]) (simp_all add: yY Y r3)
        with dec(3) have "y mod 100 \<noteq> 0" by simp
        with m4 show ?thesis by (simp add: leap_year_def)
      next
        case False
        with qc dec(3) have "q = 24" "c = 3" by simp_all
        then have "y mod 400 = 0"
          by (intro div_eqI(2) [where q = "era + 1"]) (simp_all add: yY Y r3)
        with m4 show ?thesis by (simp add: leap_year_def)
      qed
      with d True that show ?thesis
        by (simp add: days_in_month_def)
    qed
  qed
  have "valid_date y m d"
    using split feb by (auto simp: valid_date_def)
  with days show ?thesis
    by (simp add: y_def m_def d_def)
qed

subsection \<open>Later days have later dates\<close>

lemma days_in_month_pos: "28 \<le> days_in_month y m"
  by (simp add: days_in_month_def)

lemma days_before_month_Suc:
  "1 \<le> m \<Longrightarrow> days_before_month y (m + 1) = days_before_month y m + days_in_month y m"
  by (simp add: days_before_month_def upto_rec2)

lemma days_before_month_mono:
  assumes "1 \<le> m" and "m \<le> m'"
  shows "days_before_month y m \<le> days_before_month y m'"
  using assms(2)
proof (induction m' rule: int_ge_induct)
  case base
  show ?case by simp
next
  case (step i)
  with assms(1) have "days_before_month y (i + 1) = days_before_month y i + days_in_month y i"
    by (intro days_before_month_Suc) simp
  with step days_in_month_pos [of y i] show ?case
    by simp
qed

lemma days_before_month_13:
  "days_before_month y 13 = (if leap_year y then 366 else 365)"
  by (simp add: days_before_month_def days_in_month_def upto_rec1)

lemma day_of_year_bounds:
  assumes "valid_date y m d"
  shows "0 \<le> days_before_month y m + (d - 1)"
    and "days_before_month y m + (d - 1) < (if leap_year y then 366 else 365)"
proof -
  from assms have m: "1 \<le> m" "m \<le> 12" and d: "1 \<le> d" "d \<le> days_in_month y m"
    by (simp_all add: valid_date_def)
  have "days_before_month y 1 \<le> days_before_month y m"
    using m by (intro days_before_month_mono) simp_all
  then show "0 \<le> days_before_month y m + (d - 1)"
    using d by (simp add: days_before_month_table)
  have "days_before_month y m + days_in_month y m = days_before_month y (m + 1)"
    using m by (simp add: days_before_month_Suc)
  also have "\<dots> \<le> days_before_month y 13"
    using m by (intro days_before_month_mono) simp_all
  finally show "days_before_month y m + (d - 1) < (if leap_year y then 366 else 365)"
    using d unfolding days_before_month_13 by linarith
qed

lemma days_before_year_mono:
  assumes "y \<le> y'"
  shows "days_before_year y \<le> days_before_year y'"
  using assms
proof (induction y' rule: int_ge_induct)
  case base
  show ?case by simp
next
  case (step i)
  then show ?case
    by (simp add: days_before_year_Suc)
qed

lemma days_from_civil_less:
  assumes "valid_date y m d" and "valid_date y' m' d'"
    and "y < y' \<or> y = y' \<and> (m < m' \<or> m = m' \<and> d < d')"
  shows "days_from_civil y m d < days_from_civil y' m' d'"
proof -
  note a = day_of_year_bounds [OF assms(1)] and b = day_of_year_bounds [OF assms(2)]
  consider "y < y'" | "y = y'" "m < m'" | "y = y'" "m = m'" "d < d'"
    using assms(3) by blast
  then show ?thesis
  proof cases
    case 1
    then have "days_before_year (y + 1) \<le> days_before_year y'"
      by (intro days_before_year_mono) simp
    with a(2) b(1) show ?thesis
      unfolding days_from_civil_def days_before_year_Suc by (simp split: if_splits)
  next
    case 2
    from assms(1,2) have m: "1 \<le> m" "d \<le> days_in_month y m" "1 \<le> d'"
      by (simp_all add: valid_date_def)
    have "days_before_month y m + days_in_month y m = days_before_month y (m + 1)"
      using m by (simp add: days_before_month_Suc)
    also have "\<dots> \<le> days_before_month y m'"
      using m 2 by (intro days_before_month_mono) simp_all
    finally show ?thesis
      using m 2 by (simp add: days_from_civil_def)
  next
    case 3
    then show ?thesis
      by (simp add: days_from_civil_def)
  qed
qed

text \<open>A day has one valid date.\<close>

lemma days_from_civil_inject:
  assumes "valid_date y m d" and "valid_date y' m' d'"
    and "days_from_civil y m d = days_from_civil y' m' d'"
  shows "y = y' \<and> m = m' \<and> d = d'"
  using days_from_civil_less [OF assms(1,2)] days_from_civil_less [OF assms(2,1)] assms(3)
  by (metis less_irrefl linorder_neqE_linordered_idom)

lemma civil_from_days_unique:
  assumes "valid_date y m d" and "days_from_civil y m d = z"
  shows "civil_from_days z = (y, m, d)"
  using civil_from_days_correct [of "z + 719468"] assms
    days_from_civil_inject [of "civil_year (z + 719468)" "civil_month (z + 719468)"
      "civil_day (z + 719468)" y m d]
  by (simp add: civil_from_days_def)

lemma civil_from_days_less:
  assumes "z < z'"
  shows "civil_year (z + 719468) < civil_year (z' + 719468) \<or>
         civil_year (z + 719468) = civil_year (z' + 719468) \<and>
           (civil_month (z + 719468) < civil_month (z' + 719468) \<or>
            civil_month (z + 719468) = civil_month (z' + 719468) \<and>
              civil_day (z + 719468) < civil_day (z' + 719468))"
proof (rule ccontr)
  assume neg: "\<not> ?thesis"
  note c = civil_from_days_correct [of "z + 719468"] and c' = civil_from_days_correct [of "z' + 719468"]
  from neg have "(civil_year (z' + 719468) = civil_year (z + 719468) \<and>
      civil_month (z' + 719468) = civil_month (z + 719468) \<and>
      civil_day (z' + 719468) = civil_day (z + 719468)) \<or>
     (civil_year (z' + 719468) < civil_year (z + 719468) \<or>
         civil_year (z' + 719468) = civil_year (z + 719468) \<and>
           (civil_month (z' + 719468) < civil_month (z + 719468) \<or>
            civil_month (z' + 719468) = civil_month (z + 719468) \<and>
              civil_day (z' + 719468) < civil_day (z + 719468)))"
    by linarith
  then show False
  proof
    assume "civil_year (z' + 719468) = civil_year (z + 719468) \<and>
      civil_month (z' + 719468) = civil_month (z + 719468) \<and>
      civil_day (z' + 719468) = civil_day (z + 719468)"
    with c c' assms show False by simp
  next
    assume "civil_year (z' + 719468) < civil_year (z + 719468) \<or>
         civil_year (z' + 719468) = civil_year (z + 719468) \<and>
           (civil_month (z' + 719468) < civil_month (z + 719468) \<or>
            civil_month (z' + 719468) = civil_month (z + 719468) \<and>
              civil_day (z' + 719468) < civil_day (z + 719468))"
    with days_from_civil_less [OF c' [THEN conjunct1] c [THEN conjunct1]] c c' assms
    show False by simp
  qed
qed

subsection \<open>The text of a date\<close>

lemma digit_char_less:
  fixes i j :: nat
  assumes "i < 10" "j < 10"
  shows "(char_of (48 + i) < char_of (48 + j)) = (i < j)"
    and "(char_of (48 + i) = char_of (48 + j)) = (i = j)"
proof -
  have "of_char (char_of (48 + i)) = 48 + i" "of_char (char_of (48 + j)) = 48 + j"
    using assms by simp_all
  then show "(char_of (48 + i) < char_of (48 + j)) = (i < j)"
    by (simp add: less_char_def)
  from \<open>of_char (char_of (48 + i)) = 48 + i\<close> \<open>of_char (char_of (48 + j)) = 48 + j\<close>
  show "(char_of (48 + i) = char_of (48 + j)) = (i = j)"
    by (metis add_left_cancel)
qed

lemma length_decDigits [simp]: "length (decDigits k n) = k"
  by (induction k arbitrary: n) simp_all

lemma append_less_same_length:
  fixes xs ys :: "'a::linorder list"
  assumes "length xs = length ys"
  shows "(xs @ us < ys @ vs) = (xs < ys \<or> xs = ys \<and> us < vs)"
  using assms by (induction xs ys rule: list_induct2) auto

lemma less_by_digits:
  fixes a b :: nat
  shows "(a < b) = (a div 10 < b div 10 \<or> a div 10 = b div 10 \<and> a mod 10 < b mod 10)"
proof -
  define qa ra qb rb where "qa = a div 10" and "ra = a mod 10" and "qb = b div 10"
    and "rb = b mod 10"
  have "a = 10 * qa + ra" "b = 10 * qb + rb" "ra < 10" "rb < 10"
    by (simp_all add: qa_def ra_def qb_def rb_def)
  then show ?thesis
    unfolding qa_def [symmetric] ra_def [symmetric] qb_def [symmetric] rb_def [symmetric]
    by linarith
qed

lemma eq_by_digits:
  fixes a b :: nat
  shows "(a = b) = (a div 10 = b div 10 \<and> a mod 10 = b mod 10)"
  by (metis div_mult_mod_eq)

lemma decDigits_order:
  assumes "a < 10 ^ k" "b < 10 ^ k"
  shows "(decDigits k a < decDigits k b) = (a < b) \<and> (decDigits k a = decDigits k b) = (a = b)"
  using assms
proof (induction k arbitrary: a b)
  case 0
  then show ?case by simp
next
  case (Suc k)
  then have "a div 10 < 10 ^ k" "b div 10 < 10 ^ k"
    by (simp_all add: less_mult_imp_div_less mult.commute)
  note ih = Suc.IH [OF this]
  have d: "a mod 10 < 10" "b mod 10 < 10"
    by simp_all
  have "(decDigits (Suc k) a < decDigits (Suc k) b) =
      (a div 10 < b div 10 \<or> a div 10 = b div 10 \<and> a mod 10 < b mod 10)"
    using ih digit_char_less(1) [OF d]
    by (simp add: append_less_same_length)
  moreover have "(decDigits (Suc k) a = decDigits (Suc k) b) =
      (a div 10 = b div 10 \<and> a mod 10 = b mod 10)"
    using ih digit_char_less(2) [OF d] by simp
  ultimately show ?case
    using less_by_digits [of a b] eq_by_digits [of a b] by simp
qed

lemma format_date_order:
  assumes "0 \<le> y" "y \<le> 9999" "0 \<le> m" "m \<le> 99" "0 \<le> d" "d \<le> 99"
    and "0 \<le> y'" "y' \<le> 9999" "0 \<le> m'" "m' \<le> 99" "0 \<le> d'" "d' \<le> 99"
  shows "(format_date y m d < format_date y' m' d') =
           (y < y' \<or> y = y' \<and> (m < m' \<or> m = m' \<and> d < d'))"
    and "(format_date y m d = format_date y' m' d') = (y = y' \<and> m = m' \<and> d = d')"
proof -
  have Y: "(decDigits 4 (nat y) < decDigits 4 (nat y')) = (y < y')"
      "(decDigits 4 (nat y) = decDigits 4 (nat y')) = (y = y')"
    using decDigits_order [of "nat y" 4 "nat y'"] assms by auto
  have M: "(decDigits 2 (nat m) < decDigits 2 (nat m')) = (m < m')"
      "(decDigits 2 (nat m) = decDigits 2 (nat m')) = (m = m')"
    using decDigits_order [of "nat m" 2 "nat m'"] assms by auto
  have D: "(decDigits 2 (nat d) < decDigits 2 (nat d')) = (d < d')"
      "(decDigits 2 (nat d) = decDigits 2 (nat d')) = (d = d')"
    using decDigits_order [of "nat d" 2 "nat d'"] assms by auto
  show "(format_date y m d < format_date y' m' d') =
           (y < y' \<or> y = y' \<and> (m < m' \<or> m = m' \<and> d < d'))"
    unfolding format_date_def
    by (simp add: append_less_same_length Y M D)
  show "(format_date y m d = format_date y' m' d') = (y = y' \<and> m = m' \<and> d = d')"
    unfolding format_date_def by (simp add: Y M D)
qed

lemma decDigits_2: "decDigits 2 n = [char_of (48 + n div 10 mod 10), char_of (48 + n mod 10)]"
proof -
  have e: "(2::nat) = Suc (Suc 0)" by simp
  show ?thesis by (subst e) simp
qed

lemma decDigits_4:
  "decDigits 4 n =
     [char_of (48 + n div 10 div 10 div 10 mod 10), char_of (48 + n div 10 div 10 mod 10),
      char_of (48 + n div 10 mod 10), char_of (48 + n mod 10)]"
proof -
  have e: "(4::nat) = Suc (Suc (Suc (Suc 0)))" by simp
  show ?thesis by (subst e) simp
qed

lemma digit_chars:
  "char_of (48::nat) = CHR ''0''" "char_of (49::nat) = CHR ''1''" "char_of (50::nat) = CHR ''2''"
  "char_of (51::nat) = CHR ''3''" "char_of (52::nat) = CHR ''4''" "char_of (53::nat) = CHR ''5''"
  "char_of (54::nat) = CHR ''6''" "char_of (55::nat) = CHR ''7''" "char_of (56::nat) = CHR ''8''"
  "char_of (57::nat) = CHR ''9''"
  by (simp_all add: char_of_def bit_iff_odd_drop_bit drop_bit_eq_div)

lemma char_of_digit:
  fixes k :: nat
  assumes "k < 10"
  shows "char_of (48 + k) = digit (int k)"
proof -
  from assms consider "k = 0" | "k = 1" | "k = 2" | "k = 3" | "k = 4" | "k = 5" | "k = 6"
    | "k = 7" | "k = 8" | "k = 9"
    by atomize_elim arith
  then show ?thesis
    by cases (simp_all add: digit_def digit_chars)
qed

lemma decDigits_2_digit:
  assumes "0 \<le> m" "m \<le> 99"
  shows "decDigits 2 (nat m) = [digit (m div 10), digit (m mod 10)]"
proof -
  define n where "n = nat m"
  have m: "m = int n" and n: "n < 100"
    using assms by (simp_all add: n_def)
  have "n div 10 < 10" "n mod 10 < 10"
    using n by simp_all
  then have "char_of (48 + n div 10) = digit (int (n div 10))"
      "char_of (48 + n mod 10) = digit (int (n mod 10))"
    by (simp_all only: char_of_digit)
  moreover have "n div 10 mod 10 = n div 10"
    using \<open>n div 10 < 10\<close> by simp
  ultimately show ?thesis
    unfolding n_def [symmetric] m by (simp add: decDigits_2 zdiv_int zmod_int)
qed

lemma decDigits_4_digit:
  assumes "0 \<le> y" "y \<le> 9999"
  shows "decDigits 4 (nat y) =
     [digit (y div 1000), digit (y div 100 mod 10), digit (y div 10 mod 10), digit (y mod 10)]"
proof -
  define n where "n = nat y"
  have y: "y = int n" and n: "n < 10000"
    using assms by (simp_all add: n_def)
  have q: "n div 100 div 10 = n div 1000" "n div 10 div 10 = n div 100"
    by (simp_all add: div_mult2_eq [symmetric])
  have "n div 1000 < 10" "n div 100 mod 10 < 10" "n div 10 mod 10 < 10" "n mod 10 < 10"
    using n by simp_all
  then have "char_of (48 + n div 1000) = digit (int (n div 1000))"
      "char_of (48 + n div 100 mod 10) = digit (int (n div 100 mod 10))"
      "char_of (48 + n div 10 mod 10) = digit (int (n div 10 mod 10))"
      "char_of (48 + n mod 10) = digit (int (n mod 10))"
    by (simp_all only: char_of_digit)
  moreover have "n div 1000 mod 10 = n div 1000"
    using \<open>n div 1000 < 10\<close> by simp
  ultimately show ?thesis
    unfolding n_def [symmetric] y by (simp add: decDigits_4 q zdiv_int zmod_int)
qed

lemma format_date_iso:
  assumes "0 \<le> y" "y \<le> 9999" "0 \<le> m" "m \<le> 99" "0 \<le> d" "d \<le> 99"
  shows "format_date y m d = iso_date y m d"
  by (simp add: format_date_def iso_date_def decDigits_4_digit [OF assms(1,2)]
      decDigits_2_digit [OF assms(3,4)] decDigits_2_digit [OF assms(5,6)])

lemma iso_sample: "iso_date 2024 2 29 = ''2024-02-29''" "iso_date 7 12 1 = ''0007-12-01''"
  by (simp_all add: iso_date_def digit_def)

subsection \<open>The years 0000 to 9999\<close>

lemma in_years_utc_day:
  "in_years_0000_9999 t \<longleftrightarrow> - 719528 \<le> utc_day t \<and> utc_day t \<le> 2932896"
proof -
  define q r where "q = t div 86400000" and "r = t mod 86400000"
  have "t = 86400000 * q + r" "0 \<le> r" "r < 86400000"
    by (simp_all add: q_def r_def)
  then show ?thesis
    unfolding in_years_0000_9999_def utc_day_def q_def [symmetric] by linarith
qed

lemma civil_year_mono:
  assumes "z \<le> z'"
  shows "civil_year (z + 719468) \<le> civil_year (z' + 719468)"
proof (cases "z = z'")
  case True
  then show ?thesis by simp
next
  case False
  with assms have "z < z'" by simp
  from civil_from_days_less [OF this] show ?thesis
    by linarith
qed

lemma civil_year_corners:
  "civil_year (- 61) = - 1" "civil_year (- 60) = 0"
  "civil_year 3652364 = 9999" "civil_year 3652365 = 10000"
  by (simp_all add: civil_year_def civil_month_def month_from_march_def year_from_march_def
      day_of_year_def year_of_cycle_def day_of_cycle_def cycle_of_century_def
      day_of_century_def century_of_era_def day_of_era_def)

lemma civil_year_range:
  "0 \<le> civil_year (z + 719468) \<and> civil_year (z + 719468) \<le> 9999 \<longleftrightarrow>
   - 719528 \<le> z \<and> z \<le> 2932896"
proof
  assume y: "0 \<le> civil_year (z + 719468) \<and> civil_year (z + 719468) \<le> 9999"
  have "- 719528 \<le> z"
  proof (rule ccontr)
    assume "\<not> - 719528 \<le> z"
    then have "z \<le> - 719529" by simp
    from civil_year_mono [OF this] y show False
      by (simp add: civil_year_corners)
  qed
  moreover have "z \<le> 2932896"
  proof (rule ccontr)
    assume "\<not> z \<le> 2932896"
    then have "2932897 \<le> z" by simp
    from civil_year_mono [OF this] y show False
      by (simp add: civil_year_corners)
  qed
  ultimately show "- 719528 \<le> z \<and> z \<le> 2932896" ..
next
  assume z: "- 719528 \<le> z \<and> z \<le> 2932896"
  then have "- 719528 \<le> z" "z \<le> 2932896" by simp_all
  from civil_year_mono [OF this(1)] civil_year_mono [OF this(2)]
  show "0 \<le> civil_year (z + 719468) \<and> civil_year (z + 719468) \<le> 9999"
    by (simp add: civil_year_corners)
qed

lemma dateToString_eq:
  "dateToString t = (if in_years_0000_9999 t then Some (date_of_day (utc_day t)) else None)"
  using civil_year_range [of "utc_day t"]
  by (simp add: dateToString_def civil_from_days_def date_of_day_def in_years_utc_day)

lemma valid_date_bounds:
  "valid_date y m d \<Longrightarrow> 0 \<le> m \<and> m \<le> 99 \<and> 0 \<le> d \<and> d \<le> 99"
  by (auto simp: valid_date_def days_in_month_def split: if_splits)

lemma date_of_day_order:
  assumes "- 719528 \<le> z" "z \<le> 2932896" "- 719528 \<le> z'" "z' \<le> 2932896"
  shows "(date_of_day z < date_of_day z') = (z < z')"
    and "(date_of_day z = date_of_day z') = (z = z')"
proof -
  define y m d where "y = civil_year (z + 719468)" and "m = civil_month (z + 719468)"
    and "d = civil_day (z + 719468)"
  define y' m' d' where "y' = civil_year (z' + 719468)" and "m' = civil_month (z' + 719468)"
    and "d' = civil_day (z' + 719468)"
  have c: "valid_date y m d" "days_from_civil y m d = z"
    using civil_from_days_correct [of "z + 719468"] by (simp_all add: y_def m_def d_def)
  have c': "valid_date y' m' d'" "days_from_civil y' m' d' = z'"
    using civil_from_days_correct [of "z' + 719468"] by (simp_all add: y'_def m'_def d'_def)
  have yr: "0 \<le> y" "y \<le> 9999" "0 \<le> y'" "y' \<le> 9999"
    using civil_year_range [of z] civil_year_range [of z'] assms
    by (simp_all add: y_def y'_def)
  have b: "0 \<le> m" "m \<le> 99" "0 \<le> d" "d \<le> 99"
    using valid_date_bounds [OF c(1)] by simp_all
  have b': "0 \<le> m'" "m' \<le> 99" "0 \<le> d'" "d' \<le> 99"
    using valid_date_bounds [OF c'(1)] by simp_all
  note ord = format_date_order [OF yr(1,2) b yr(3,4) b']
  have lex: "(y < y' \<or> y = y' \<and> (m < m' \<or> m = m' \<and> d < d')) = (z < z')"
  proof
    assume "y < y' \<or> y = y' \<and> (m < m' \<or> m = m' \<and> d < d')"
    from days_from_civil_less [OF c(1) c'(1) this] show "z < z'"
      by (simp only: c(2) c'(2))
  next
    assume "z < z'"
    from civil_from_days_less [OF this]
    show "y < y' \<or> y = y' \<and> (m < m' \<or> m = m' \<and> d < d')"
      by (simp only: y_def m_def d_def y'_def m'_def d'_def)
  qed
  have "date_of_day z = format_date y m d" "date_of_day z' = format_date y' m' d'"
    by (simp_all only: date_of_day_def y_def m_def d_def y'_def m'_def d'_def)
  note dd = this
  show "(date_of_day z < date_of_day z') = (z < z')"
    by (simp only: dd ord(1) lex)
  have eq: "(y = y' \<and> m = m' \<and> d = d') = (z = z')"
  proof
    assume e: "y = y' \<and> m = m' \<and> d = d'"
    have "z = days_from_civil y m d" by (simp only: c(2))
    also have "\<dots> = days_from_civil y' m' d'" using e by (simp only:)
    also have "\<dots> = z'" by (simp only: c'(2))
    finally show "z = z'" .
  next
    assume "z = z'"
    then show "y = y' \<and> m = m' \<and> d = d'"
      by (simp only: y_def m_def d_def y'_def m'_def d'_def)
  qed
  show "(date_of_day z = date_of_day z') = (z = z')"
    by (simp only: dd ord(2) eq)
qed

lemma date_of_day_calendar:
  "\<exists>y m d. valid_date y m d \<and> days_from_civil y m d = z \<and> date_of_day z = format_date y m d"
proof (intro exI conjI)
  show "valid_date (civil_year (z + 719468)) (civil_month (z + 719468)) (civil_day (z + 719468))"
    using civil_from_days_correct [of "z + 719468"] by (rule conjunct1)
  show "days_from_civil (civil_year (z + 719468)) (civil_month (z + 719468))
      (civil_day (z + 719468)) = z"
    using civil_from_days_correct [of "z + 719468"] by simp
  show "date_of_day z =
      format_date (civil_year (z + 719468)) (civil_month (z + 719468)) (civil_day (z + 719468))"
    by (simp only: date_of_day_def)
qed

subsection \<open>The dates that are formatted\<close>

lemma in_years_calendar:
  "in_years_0000_9999 t \<longleftrightarrow>
   (\<exists>y m d. valid_date y m d \<and> days_from_civil y m d = utc_day t \<and> 0 \<le> y \<and> y \<le> 9999)"
proof
  assume "in_years_0000_9999 t"
  then have "0 \<le> civil_year (utc_day t + 719468) \<and> civil_year (utc_day t + 719468) \<le> 9999"
    by (simp only: in_years_utc_day civil_year_range)
  with civil_from_days_correct [of "utc_day t + 719468"]
  show "\<exists>y m d. valid_date y m d \<and> days_from_civil y m d = utc_day t \<and> 0 \<le> y \<and> y \<le> 9999"
    by (intro exI [of _ "civil_year (utc_day t + 719468)"]
        exI [of _ "civil_month (utc_day t + 719468)"]
        exI [of _ "civil_day (utc_day t + 719468)"]) simp
next
  assume "\<exists>y m d. valid_date y m d \<and> days_from_civil y m d = utc_day t \<and> 0 \<le> y \<and> y \<le> 9999"
  then obtain y m d where v: "valid_date y m d" "days_from_civil y m d = utc_day t"
    and y: "0 \<le> y" "y \<le> 9999"
    by blast
  from civil_from_days_unique [OF v] have "civil_year (utc_day t + 719468) = y"
    by (simp add: civil_from_days_def)
  with y show "in_years_0000_9999 t"
    by (simp only: in_years_utc_day civil_year_range [symmetric])
qed

lemma date_of_day_iso:
  assumes "- 719528 \<le> z" "z \<le> 2932896"
  shows "\<exists>y m d. valid_date y m d \<and> days_from_civil y m d = z \<and> 0 \<le> y \<and> y \<le> 9999 \<and>
           date_of_day z = iso_date y m d"
proof -
  define y m d where "y = civil_year (z + 719468)" and "m = civil_month (z + 719468)"
    and "d = civil_day (z + 719468)"
  have c: "valid_date y m d" "days_from_civil y m d = z"
    using civil_from_days_correct [of "z + 719468"] by (simp_all add: y_def m_def d_def)
  have yr: "0 \<le> y" "y \<le> 9999"
    using civil_year_range [of z] assms by (simp_all add: y_def)
  have b: "0 \<le> m" "m \<le> 99" "0 \<le> d" "d \<le> 99"
    using valid_date_bounds [OF c(1)] by simp_all
  have "date_of_day z = format_date y m d"
    by (simp only: date_of_day_def y_def m_def d_def)
  also have "\<dots> = iso_date y m d"
    using yr b by (rule format_date_iso)
  finally show ?thesis
    using c yr by blast
qed

section \<open>Queries\<close>

lemma inj_toString: "inj toString"
  by (rule inj_on_inverseI [where g = createFromHexString]) (rule createFromHexString_toString)

lemma common_ids:
  "createFromHexString ` set (filter (\<lambda>f. f \<in> set (map toString ys)) (map toString xs)) =
   set xs \<inter> set ys"
proof -
  have "set (filter (\<lambda>f. f \<in> set (map toString ys)) (map toString xs)) =
      toString ` (set xs \<inter> set ys)"
    using inj_toString by (auto simp: inj_def)
  then show ?thesis
    by (simp add: image_image createFromHexString_toString)
qed

lemma getCommonFollowers_found:
  assumes "isValidObjectId userId1" and "isValidObjectId userId2" and "userId1 \<noteq> userId2"
    and "findById (createFromHexString userId1) db = Some user1"
    and "findById (createFromHexString userId2) db = Some user2"
  shows "getCommonFollowers userId1 userId2 db =
     Inr (getSuccessResponse 200 COMMON_FOLLOWERS
       (Some (map (\<lambda>d. \<lparr>view_id = user_id d, view_username = username d\<rparr>)
          (filter (\<lambda>d. user_id d \<in> followers_followId ` set (followers user1) \<inter>
                                   followers_followId ` set (followers user2)) db))))"
proof -
  have "createFromHexString `
      set (filter (\<lambda>f. f \<in> set (map toString (map followers_followId (followers user2))))
             (map toString (map followers_followId (followers user1)))) =
      set (map followers_followId (followers user1)) \<inter>
      set (map followers_followId (followers user2))"
    by (rule common_ids)
  then show ?thesis
    using assms by (simp add: getCommonFollowers_def find_id_in_def Let_def comp_def)
qed

lemma getCommonFollowers_missing:
  assumes "isValidObjectId userId1" and "isValidObjectId userId2" and "userId1 \<noteq> userId2"
    and "findById (createFromHexString userId1) db = None \<or>
         findById (createFromHexString userId2) db = None"
  shows "getCommonFollowers userId1 userId2 db = Inl (Error NOT_FOUND)"
  using assms by (auto simp: getCommonFollowers_def split: option.splits)

lemma keys_add_to_group: "fst ` set (add_to_group k gs) = insert k (fst ` set gs)"
  by (induction k gs rule: add_to_group.induct) auto

lemma distinct_add_to_group:
  "distinct (map fst gs) \<Longrightarrow> distinct (map fst (add_to_group k gs))"
  by (induction k gs rule: add_to_group.induct) (auto simp: keys_add_to_group)

lemma map_of_add_to_group:
  "map_of (add_to_group k gs) k' =
     (if k' = k then Some (case map_of gs k of None \<Rightarrow> 1 | Some c \<Rightarrow> c + 1)
      else map_of gs k')"
  by (induction k gs rule: add_to_group.induct) auto

lemma foldl_add_to_group:
  "distinct (map fst gs) \<Longrightarrow>
   distinct (map fst (foldl (\<lambda>gs e. add_to_group (key e) gs) gs es)) \<and>
   fst ` set (foldl (\<lambda>gs e. add_to_group (key e) gs) gs es) = fst ` set gs \<union> key ` set es \<and>
   (\<forall>k. map_of (foldl (\<lambda>gs e. add_to_group (key e) gs) gs es) k =
      (if k \<in> fst ` set gs \<union> key ` set es
       then Some ((case map_of gs k of None \<Rightarrow> 0 | Some c \<Rightarrow> c) +
                  length (filter (\<lambda>e. key e = k) es))
       else None))"
proof (induction es arbitrary: gs)
  case Nil
  then show ?case
    by (auto simp: map_of_eq_None_iff split: option.splits)
next
  case (Cons e es)
  from Cons.prems have "distinct (map fst (add_to_group (key e) gs))"
    by (rule distinct_add_to_group)
  from Cons.IH [OF this] show ?case
    by (auto simp: keys_add_to_group map_of_add_to_group split: option.splits)
qed

lemma those_map_Some:
  "(\<forall>x\<in>set xs. f x = Some (g x)) \<Longrightarrow> those (map f xs) = Some (map g xs)"
  by (induction xs) simp_all

lemma those_map_None:
  "\<exists>x\<in>set xs. f x = None \<Longrightarrow> those (map f xs) = None"
  by (induction xs) (auto split: option.splits)

lemma group_by_date_in_range:
  assumes "\<forall>e\<in>set es. in_years_0000_9999 (followers_date e)"
  shows "group_by_date es =
     Some (foldl (\<lambda>gs e. add_to_group (date_of_day (utc_day (followers_date e))) gs) [] es)"
proof -
  have "those (map (\<lambda>e. dateToString (followers_date e)) es) =
      Some (map (\<lambda>e. date_of_day (utc_day (followers_date e))) es)"
    using assms by (intro those_map_Some) (simp add: dateToString_eq)
  then show ?thesis
    by (simp add: group_by_date_def foldl_map)
qed

lemma group_by_date_out_of_range:
  assumes "\<exists>e\<in>set es. \<not> in_years_0000_9999 (followers_date e)"
  shows "group_by_date es = None"
proof -
  from assms have "\<exists>e\<in>set es. dateToString (followers_date e) = None"
    by (simp add: dateToString_eq)
  then have "those (map (\<lambda>e. dateToString (followers_date e)) es) = None"
    by (rule those_map_None)
  then show ?thesis
    by (simp add: group_by_date_def)
qed

lemma daily_counts_rows:
  fixes key :: "followers_entry \<Rightarrow> string"
  defines "groups es \<equiv> foldl (\<lambda>gs e. add_to_group (key e) gs) [] es"
  defines "rows es \<equiv> project_date_count (sort_by_date (groups es))"
  shows "sorted (map date (rows es)) \<and> distinct (map date (rows es)) \<and>
     set (map date (rows es)) = key ` set es \<and>
     (\<forall>row\<in>set (rows es). count row = length (filter (\<lambda>e. key e = date row) es))"
proof -
  have keys: "distinct (map fst (groups es))" "fst ` set (groups es) = key ` set es"
    using foldl_add_to_group [of "[]" key es] by (simp_all add: groups_def)
  have counts: "c = length (filter (\<lambda>e. key e = k) es)" if "(k, c) \<in> set (groups es)" for k c
  proof -
    from that have "map_of (groups es) k = Some c"
      by (simp add: keys(1))
    moreover from that have "k \<in> key ` set es"
      unfolding keys(2) [symmetric] by force
    ultimately show ?thesis
      using foldl_add_to_group [of "[]" key es] by (simp add: groups_def)
  qed
  have dates: "map date (rows es) = map fst (sort_key fst (groups es))"
    by (simp add: rows_def project_date_count_def sort_by_date_def split_def comp_def)
  have "distinct (map fst (sort_key fst (groups es)))"
    using keys(1) by (simp add: distinct_map)
  moreover have "sorted (map fst (sort_key fst (groups es)))"
    by (rule sorted_sort_key)
  moreover have "set (map fst (sort_key fst (groups es))) = key ` set es"
    by (simp add: keys(2))
  moreover have "count row = length (filter (\<lambda>e. key e = date row) es)"
    if "row \<in> set (rows es)" for row
  proof -
    from that obtain k c where "(k, c) \<in> set (groups es)" "row = \<lparr>date = k, count = c\<rparr>"
      by (auto simp: rows_def project_date_count_def sort_by_date_def)
    then show ?thesis
      by (simp add: counts)
  qed
  ultimately show ?thesis
    unfolding dates by blast
qed

text \<open>
  The dates of the rows are the dates of the days of the entries, in the order of the
  days: the order of the strings is the order of the days they stand for.
\<close>

lemma daily_counts_days:
  fixes es :: "followers_entry list"
  assumes "\<forall>e\<in>set es. in_years_0000_9999 (followers_date e)"
  shows "map date (project_date_count (sort_by_date
           (foldl (\<lambda>gs e. add_to_group (date_of_day (utc_day (followers_date e))) gs) [] es))) =
         map date_of_day (sorted_list_of_set ((\<lambda>e. utc_day (followers_date e)) ` set es))"
proof -
  define rows where "rows = project_date_count (sort_by_date
    (foldl (\<lambda>gs e. add_to_group (date_of_day (utc_day (followers_date e))) gs) [] es))"
  define days where "days = sorted_list_of_set ((\<lambda>e. utc_day (followers_date e)) ` set es)"
  have days: "sorted_wrt (<) days" "set days = (\<lambda>e. utc_day (followers_date e)) ` set es"
    by (simp_all add: days_def)
  have range: "- 719528 \<le> z \<and> z \<le> 2932896" if "z \<in> set days" for z
    using that assms by (auto simp: days(2) in_years_utc_day)
  have "sorted_wrt (\<lambda>a b. date_of_day a < date_of_day b) days"
    using days(1)
  proof (rule sorted_wrt_mono_rel [rotated])
    fix a b
    assume "a \<in> set days" "b \<in> set days" "a < b"
    with range [of a] range [of b] show "date_of_day a < date_of_day b"
      by (simp add: date_of_day_order(1))
  qed
  then have "sorted_wrt (<) (map date_of_day days)"
    by (simp add: sorted_wrt_map)
  then have s: "sorted (map date_of_day days)" "distinct (map date_of_day days)"
    by (simp_all add: strict_sorted_iff)
  note r = daily_counts_rows [of "\<lambda>e. date_of_day (utc_day (followers_date e))" es,
      folded rows_def]
  have "set (map date rows) = set (map date_of_day days)"
    using r by (simp add: days(2) image_image)
  with r s have "map date rows = map date_of_day days"
    by (intro sorted_distinct_set_unique) simp_all
  then show ?thesis
    by (simp only: rows_def days_def)
qed

lemma map_eq_list_all2:
  "map f xs = map g ys \<Longrightarrow> list_all2 (\<lambda>x y. f x = g y) xs ys"
  by (induction xs arbitrary: ys) auto

lemma match_id_found:
  "distinct (map user_id db) \<Longrightarrow> findById i db = Some d \<Longrightarrow> match_id i db = [d]"
proof (induction db)
  case Nil
  then show ?case by (simp add: findById_def findOne_def)
next
  case (Cons x xs)
  show ?case
  proof (cases "user_id x = i")
    case True
    with Cons.prems have "i \<notin> user_id ` set xs" "x = d"
      by (auto simp: findById_def findOne_def)
    then have "filter (\<lambda>d. user_id d = i) xs = []"
      by (force simp: filter_empty_conv)
    with True \<open>x = d\<close> show ?thesis
      by (simp add: match_id_def)
  next
    case False
    with Cons show ?thesis
      by (simp add: match_id_def findById_def findOne_def)
  qed
qed

lemma match_id_missing: "findById i db = None \<Longrightarrow> match_id i db = []"
  by (force simp: match_id_def findById_None filter_empty_conv)

lemma unwind_match_id:
  "distinct (map user_id db) \<Longrightarrow> unwind_followers (match_id i db) = followers_of i db"
  by (cases "findById i db")
    (simp_all add: followers_of_def unwind_followers_def match_id_missing match_id_found)

text \<open>One entry dated outside the years 0000 to 9999 makes the request fail.\<close>

lemma getFollowersCountDaily_out_of_range:
  assumes "wf_store db" and "isValidObjectId userId"
    and "\<exists>e\<in>set (followers_of (createFromHexString userId) db).
           \<not> in_years_0000_9999 (followers_date e)"
  shows "getFollowersCountDaily userId db = Inl DateOutOfRange"
proof -
  from assms(1) have "distinct (map user_id db)"
    by (rule wf_store_distinct)
  then have "unwind_followers (match_id (createFromHexString userId) db) =
      followers_of (createFromHexString userId) db"
    by (rule unwind_match_id)
  with assms(2) group_by_date_out_of_range [OF assms(3)] show ?thesis
    by (simp add: getFollowersCountDaily_def)
qed

section \<open>Concrete runs\<close>

lemma sample_ids_valid:
  "isValidObjectId alice_id" "isValidObjectId bob_id" "isValidObjectId carol_id"
  by (simp_all add: alice_id_def bob_id_def carol_id_def js_def isValidObjectId_def hexValue_def)

lemma sample_ids_cast:
  "createFromHexString alice_id = 0xa1" "createFromHexString bob_id = 0xb2"
  "createFromHexString carol_id = 0xc3"
  by (simp_all add: alice_id_def bob_id_def carol_id_def js_def createFromHexString_def
      parseHex_def hexValue_def)

lemma sample_ids_distinct:
  "alice_id \<noteq> bob_id" "bob_id \<noteq> alice_id" "alice_id \<noteq> carol_id" "carol_id \<noteq> alice_id"
  "bob_id \<noteq> carol_id" "carol_id \<noteq> bob_id"
  by (simp_all add: alice_id_def bob_id_def carol_id_def js_def)

lemmas sample_defs = alice_def bob_def carol_def
lemmas sample_ids = sample_ids_valid sample_ids_cast sample_ids_distinct

lemma run_follow:
  "followUser alice_id bob_id 1721433600000 1721433600002 [alice, bob] =
     (Inr (getSuccessResponse 200 UPDATE_FOLLOW None), alice_follows_bob)"
  by (simp add: followUser_def sample_ids sample_defs push_followings_def push_followers_def
      alice_follows_bob_def)

lemma run_unfollow:
  "unfollowUser alice_id bob_id alice_follows_bob =
     (Inr (getSuccessResponse 200 UPDATE_UNFOLLOW None), [alice, bob])"
  by (simp add: unfollowUser_def sample_ids sample_defs pull_followings_def pull_followers_def
      alice_follows_bob_def)

lemma run_follow_again:
  "followUser alice_id bob_id 1721520000000 1721520000001 alice_follows_bob =
     (Inl (Error ERROR_UPDATE_FOLLOWING), alice_follows_bob)"
  by (simp add: followUser_def sample_ids sample_defs alice_follows_bob_def)

lemma wf_sample: "wf_store [alice, bob]" "wf_store [alice]" "wf_store [bob]"
  "wf_store [alice, bob_stale]"
  by (simp_all add: wf_store_def sample_defs bob_stale_def)

lemma run_follow_stale:
  "followUser alice_id bob_id 1721433600000 1721433600002 [alice, bob_stale] =
     (Inl (Error ERROR_UPDATE_FOLLOWERS),
      [alice\<lparr>followings := [\<lparr>followings_followingId = 0xb2, followings_date = 1721433600000\<rparr>]\<rparr>,
       bob_stale])"
  by (simp add: followUser_def sample_ids sample_defs bob_stale_def push_followings_def)

lemma wf_popular: "wf_store [alice_popular, bob_popular, carol]"
  by (simp add: wf_store_def alice_popular_def bob_popular_def sample_defs)

lemma find_popular:
  "findById (createFromHexString alice_id) [alice_popular, bob_popular, carol] = Some alice_popular"
  "findById (createFromHexString bob_id) [alice_popular, bob_popular, carol] = Some bob_popular"
  by (simp_all add: findById_def findOne_def sample_ids alice_popular_def bob_popular_def
      sample_defs)

lemma followers_of_popular:
  "followers_of (createFromHexString bob_id) [alice_popular, bob_popular, carol] =
     followers bob_popular"
  by (simp add: followers_of_def find_popular)

lemma find_sample:
  "findById (createFromHexString alice_id) [alice, bob] = Some alice"
  "findById (createFromHexString bob_id) [alice, bob] = Some bob"
  "findById (createFromHexString carol_id) [alice, bob] = None"
  by (simp_all add: findById_def findOne_def sample_ids sample_defs)

lemma dates_sample:
  "dateToString 1721433600000 = Some ''2024-07-20''"
  "dateToString 1721519999999 = Some ''2024-07-20''"
  "dateToString 1721520000000 = Some ''2024-07-21''"
  "dateToString 1709164800000 = Some ''2024-02-29''"
  by (simp_all add: dateToString_def utc_day_def civil_defs format_date_def decDigits_2
      decDigits_4 digit_chars)

text \<open>
  The calendar at its corners: the epoch and the millisecond before it, leap days, the
  year 1900 without one, the first and last days that \<^verbatim>\<open>$dateToString\<close> formats, and
  the milliseconds next to them, which it rejects.
\<close>

lemma dates_calendar:
  "dateToString 0 = Some ''1970-01-01''"
  "dateToString (- 1) = Some ''1969-12-31''"
  "dateToString 951782400000 = Some ''2000-02-29''"
  "dateToString (- 2203891200001) = Some ''1900-02-28''"
  "dateToString (- 2203891200000) = Some ''1900-03-01''"
  "dateToString (- 62167219200000) = Some ''0000-01-01''"
  "dateToString 253402300799999 = Some ''9999-12-31''"
  "dateToString (- 62167219200001) = None"
  "dateToString 253402300800000 = None"
  by (simp_all add: dateToString_def utc_day_def civil_defs format_date_def decDigits_2
      decDigits_4 digit_chars)

lemma days_sample:
  "utc_day 1721433600000 = 19924" "utc_day 1721519999999 = 19924"
  "utc_day 1709164800000 = 19782"
  "days_from_civil 2024 7 20 = 19924" "days_from_civil 2024 2 29 = 19782"
  "valid_date 2024 7 20" "valid_date 2024 2 29"
  "iso_date 2024 7 20 = ''2024-07-20''" "iso_date 2024 2 29 = ''2024-02-29''"
  by (simp_all add: utc_day_def days_from_civil_def days_before_year_def leap_years_before_def
      days_before_month_table valid_date_def days_in_month_def leap_year_def iso_date_def
      digit_def)

lemma run_daily:
  "getFollowersCountDaily bob_id [alice_popular, bob_popular, carol] =
     Inr (getSuccessResponse 200 SHOW_FOLLOWERS
       (Some [\<lparr>date = ''2024-02-29'', count = 1\<rparr>, \<lparr>date = ''2024-07-20'', count = 2\<rparr>]))"
proof -
  have groups: "group_by_date (followers bob_popular) =
      Some [(''2024-07-20'', 2), (''2024-02-29'', 1)]"
    by (simp add: group_by_date_def bob_popular_def dates_sample)
  have "match_id (createFromHexString bob_id) [alice_popular, bob_popular, carol] = [bob_popular]"
    by (simp add: match_id_def sample_ids alice_popular_def bob_popular_def sample_defs)
  then show ?thesis
    by (simp add: getFollowersCountDaily_def sample_ids unwind_followers_def groups sort_by_date_def
        project_date_count_def)
qed

text \<open>A follower dated in the year 10000 makes the aggregation, and so the request, fail.\<close>

lemma run_daily_year_10000:
  "getFollowersCountDaily bob_id [alice, bob_far] = Inl DateOutOfRange"
proof -
  have groups: "group_by_date (followers bob_far) = None"
    by (simp add: group_by_date_def bob_far_def dates_calendar)
  have "match_id (createFromHexString bob_id) [alice, bob_far] = [bob_far]"
    by (simp add: match_id_def sample_ids bob_far_def sample_defs)
  then show ?thesis
    by (simp add: getFollowersCountDaily_def sample_ids unwind_followers_def groups)
qed

lemma run_common:
  "getCommonFollowers alice_id bob_id [alice_popular, bob_popular, carol] =
     Inr (getSuccessResponse 200 COMMON_FOLLOWERS (Some [carol_view]))"
  "getCommonFollowers bob_id alice_id [alice_popular, bob_popular, carol] =
     Inr (getSuccessResponse 200 COMMON_FOLLOWERS (Some [carol_view]))"
  unfolding getCommonFollowers_found [OF sample_ids_valid(1) sample_ids_valid(2)
      sample_ids_distinct(1) find_popular(1) find_popular(2)]
    getCommonFollowers_found [OF sample_ids_valid(2) sample_ids_valid(1)
      sample_ids_distinct(2) find_popular(2) find_popular(1)]
  by (simp_all add: alice_popular_def bob_popular_def sample_defs carol_view_def)

lemma run_common_empty:
  "getCommonFollowers alice_id bob_id [alice, bob] =
     Inr (getSuccessResponse 200 COMMON_FOLLOWERS (Some []))"
  unfolding getCommonFollowers_found [OF sample_ids_valid(1) sample_ids_valid(2)
      sample_ids_distinct(1) find_sample(1) find_sample(2)]
  by (simp add: sample_defs)

text \<open>
  The four writes of a \<open>followUser\<close> and an \<open>unfollowUser\<close> of the same pair, interleaved:
  first write of the follow, both writes of the unfollow (the second matches nothing),
  second write of the follow. They leave alice's document without the entry and bob's
  with it.
\<close>

lemma interleaved_follow_unfollow:
  "(case findOneAndUpdate
           (\<lambda>d. user_id d = createFromHexString alice_id \<and>
                 createFromHexString bob_id \<notin> followings_followingId ` set (followings d))
           (push_followings \<lparr>followings_followingId = createFromHexString bob_id,
                             followings_date = 1709164799000\<rparr>)
           [alice, bob] of
      (follow1, db1) \<Rightarrow>
        (case findOneAndUpdate
                (\<lambda>d. user_id d = createFromHexString alice_id \<and>
                      createFromHexString bob_id \<in> followings_followingId ` set (followings d))
                (pull_followings (createFromHexString bob_id)) db1 of
           (unfollow1, db2) \<Rightarrow>
             (case findOneAndUpdate
                     (\<lambda>d. user_id d = createFromHexString bob_id \<and>
                           createFromHexString alice_id \<in> followers_followId ` set (followers d))
                     (pull_followers (createFromHexString alice_id)) db2 of
                (unfollow2, db3) \<Rightarrow>
                  (case findOneAndUpdate
                          (\<lambda>d. user_id d = createFromHexString bob_id \<and>
                                createFromHexString alice_id \<notin>
                                  followers_followId ` set (followers d))
                          (push_followers \<lparr>followers_followId = createFromHexString alice_id,
                                           followers_date = 1709164800000\<rparr>) db3 of
                     (follow2, db4) \<Rightarrow>
                       (follow1 \<noteq> None, unfollow1 \<noteq> None, unfollow2 \<noteq> None,
                        follow2 \<noteq> None, db4))))) =
   (True, True, False, True, [alice, bob_stale])"
  by (simp add: sample_ids sample_defs bob_stale_def push_followings_def pull_followings_def
      push_followers_def pull_followers_def)

section \<open>The follow edge\<close>

text \<open>
  C1. After a successful \<open>followUser userId followId\<close> the edge is on both sides: the
  document of \<open>userId\<close> has the entry for \<open>followId\<close> in \<open>followings\<close>, stamped \<open>now1\<close>,
  and the document of \<open>followId\<close> has the entry for \<open>userId\<close> in \<open>followers\<close>, stamped
  \<open>now2\<close>.
\<close>

theorem followUser_mirror:
  assumes "wf_store db"
    and "followUser userId followId now1 now2 db = (Inr r, db')"
  shows "\<exists>u f. findById (createFromHexString userId) db' = Some u \<and>
           \<lparr>followings_followingId = createFromHexString followId, followings_date = now1\<rparr>
             \<in> set (followings u) \<and>
           findById (createFromHexString followId) db' = Some f \<and>
           \<lparr>followers_followId = createFromHexString userId, followers_date = now2\<rparr>
             \<in> set (followers f)"
proof -
  from assms(1) have d: "distinct (map user_id db)"
    by (rule wf_store_distinct)
  from d assms(2) show ?thesis
    by (rule followUser_success) (simp add: findById_update_by_id)
qed

theorem followUser_mirror_witness:
  "wf_store [alice, bob] \<and>
   followUser alice_id bob_id 1721433600000 1721433600002 [alice, bob] =
     (Inr (getSuccessResponse 200 UPDATE_FOLLOW None), alice_follows_bob) \<and>
   (\<exists>u f. findById (createFromHexString alice_id) alice_follows_bob = Some u \<and>
      \<lparr>followings_followingId = createFromHexString bob_id, followings_date = 1721433600000\<rparr>
        \<in> set (followings u) \<and>
      findById (createFromHexString bob_id) alice_follows_bob = Some f \<and>
      \<lparr>followers_followId = createFromHexString alice_id, followers_date = 1721433600002\<rparr>
        \<in> set (followers f))"
  using followUser_mirror [OF wf_sample(1) run_follow] wf_sample(1) run_follow
  by blast

text \<open>
  C2, as amended. Step 1 is the conditional push to the \<open>followings\<close> of \<open>userId\<close>, step 2
  the conditional push to the \<open>followers\<close> of \<open>followId\<close>. When step 1 matches no document
  (no such user, or the entry is there), the call fails with \<open>ERROR_UPDATE_FOLLOWING\<close> and
  the collection is untouched: step 2 is not attempted. When step 1 matches and step 2
  does not, the call fails with \<open>ERROR_UPDATE_FOLLOWERS\<close> and the collection is the one
  step 1 wrote, with the entry in the \<open>followings\<close> of \<open>userId\<close> and every \<open>followers\<close>
  array as before. The entry is then absent from the \<open>followers\<close> of \<open>followId\<close> exactly
  when \<open>followId\<close> has no document; when it has one, step 2 failed because the entry was
  there already, and the edge is on both sides.
\<close>

theorem followUser_step_order:
  assumes "wf_store db"
    and "isValidObjectId userId" and "isValidObjectId followId" and "userId \<noteq> followId"
  shows "(findById (createFromHexString userId) db = None \<or>
            has_following db (createFromHexString userId) (createFromHexString followId) \<longrightarrow>
          followUser userId followId now1 now2 db = (Inl (Error ERROR_UPDATE_FOLLOWING), db)) \<and>
         (findById (createFromHexString userId) db \<noteq> None \<and>
            \<not> has_following db (createFromHexString userId) (createFromHexString followId) \<and>
            (findById (createFromHexString followId) db = None \<or>
             has_follower db (createFromHexString followId) (createFromHexString userId)) \<longrightarrow>
          (\<exists>db'. followUser userId followId now1 now2 db = (Inl (Error ERROR_UPDATE_FOLLOWERS), db') \<and>
             db' = update_by_id (createFromHexString userId)
                     (push_followings \<lparr>followings_followingId = createFromHexString followId,
                                       followings_date = now1\<rparr>) db \<and>
             has_following db' (createFromHexString userId) (createFromHexString followId) \<and>
             map followers db' = map followers db \<and>
             has_follower db' (createFromHexString followId) (createFromHexString userId) =
               (findById (createFromHexString followId) db \<noteq> None)))"
proof -
  from assms(1) have d: "distinct (map user_id db)"
    by (rule wf_store_distinct)
  show ?thesis
    using assms(2-4)
    by (auto simp: followUser_steps [OF d] has_following_def has_follower_def Let_def
        findById_update_by_id followers_update_by_id split: option.splits)
qed

theorem followUser_step_order_witness:
  "wf_store [bob] \<and> wf_store [alice] \<and> wf_store [alice, bob_stale] \<and>
   isValidObjectId alice_id \<and> isValidObjectId bob_id \<and> alice_id \<noteq> bob_id \<and>
   findById (createFromHexString alice_id) [bob] = None \<and>
   followUser alice_id bob_id 1721433600000 1721433600002 [bob] =
     (Inl (Error ERROR_UPDATE_FOLLOWING), [bob]) \<and>
   findById (createFromHexString alice_id) [alice] \<noteq> None \<and>
   \<not> has_following [alice] (createFromHexString alice_id) (createFromHexString bob_id) \<and>
   findById (createFromHexString bob_id) [alice] = None \<and>
   followUser alice_id bob_id 1721433600000 1721433600002 [alice] =
     (Inl (Error ERROR_UPDATE_FOLLOWERS),
      [alice\<lparr>followings := [\<lparr>followings_followingId = 0xb2, followings_date = 1721433600000\<rparr>]\<rparr>]) \<and>
   \<not> has_follower
     [alice\<lparr>followings := [\<lparr>followings_followingId = 0xb2, followings_date = 1721433600000\<rparr>]\<rparr>]
     (createFromHexString bob_id) (createFromHexString alice_id) \<and>
   has_follower [alice, bob_stale] (createFromHexString bob_id) (createFromHexString alice_id) \<and>
   followUser alice_id bob_id 1721433600000 1721433600002 [alice, bob_stale] =
     (Inl (Error ERROR_UPDATE_FOLLOWERS),
      [alice\<lparr>followings := [\<lparr>followings_followingId = 0xb2, followings_date = 1721433600000\<rparr>]\<rparr>,
       bob_stale])"
proof -
  note v = sample_ids_valid(1) sample_ids_valid(2) sample_ids_distinct(1)
  have a: "findById (createFromHexString alice_id) [bob] = None"
    and b: "findById (createFromHexString alice_id) [alice] \<noteq> None"
      "\<not> has_following [alice] (createFromHexString alice_id) (createFromHexString bob_id)"
      "findById (createFromHexString bob_id) [alice] = None"
    and c: "findById (createFromHexString alice_id) [alice, bob_stale] \<noteq> None"
      "\<not> has_following [alice, bob_stale] (createFromHexString alice_id) (createFromHexString bob_id)"
      "has_follower [alice, bob_stale] (createFromHexString bob_id) (createFromHexString alice_id)"
    by (simp_all add: has_following_def has_follower_def findById_def findOne_def sample_ids
        sample_defs bob_stale_def)
  have upd: "update_by_id (createFromHexString alice_id)
      (push_followings \<lparr>followings_followingId = createFromHexString bob_id,
         followings_date = 1721433600000\<rparr>) [alice] =
      [alice\<lparr>followings := [\<lparr>followings_followingId = 0xb2, followings_date = 1721433600000\<rparr>]\<rparr>]"
    "update_by_id (createFromHexString alice_id)
      (push_followings \<lparr>followings_followingId = createFromHexString bob_id,
         followings_date = 1721433600000\<rparr>) [alice, bob_stale] =
      [alice\<lparr>followings := [\<lparr>followings_followingId = 0xb2, followings_date = 1721433600000\<rparr>]\<rparr>,
       bob_stale]"
    by (simp_all add: update_by_id_def push_followings_def sample_ids sample_defs bob_stale_def)
  from followUser_step_order [OF wf_sample(3) v, of 1721433600000 1721433600002] a
  have r1: "followUser alice_id bob_id 1721433600000 1721433600002 [bob] =
     (Inl (Error ERROR_UPDATE_FOLLOWING), [bob])"
    by blast
  from followUser_step_order [OF wf_sample(2) v, of 1721433600000 1721433600002] b
  have r2: "followUser alice_id bob_id 1721433600000 1721433600002 [alice] =
     (Inl (Error ERROR_UPDATE_FOLLOWERS),
      [alice\<lparr>followings := [\<lparr>followings_followingId = 0xb2, followings_date = 1721433600000\<rparr>]\<rparr>])"
    "\<not> has_follower
     [alice\<lparr>followings := [\<lparr>followings_followingId = 0xb2, followings_date = 1721433600000\<rparr>]\<rparr>]
     (createFromHexString bob_id) (createFromHexString alice_id)"
    unfolding upd by simp_all
  from followUser_step_order [OF wf_sample(4) v, of 1721433600000 1721433600002] c
  have r3: "followUser alice_id bob_id 1721433600000 1721433600002 [alice, bob_stale] =
     (Inl (Error ERROR_UPDATE_FOLLOWERS),
      [alice\<lparr>followings := [\<lparr>followings_followingId = 0xb2, followings_date = 1721433600000\<rparr>]\<rparr>,
       bob_stale])"
    unfolding upd by simp
  from wf_sample v a b c r1 r2 r3 show ?thesis
    by blast
qed

text \<open>
  C2, as stated, fails: alice's document does not list bob, bob's document lists alice as
  a follower. Step 1 succeeds, step 2 fails, the call reports \<open>ERROR_UPDATE_FOLLOWERS\<close>,
  and the entry is on both sides afterwards, not on one.
\<close>

theorem followUser_half_edge_counterexample:
  "\<not> has_following [alice, bob_stale] (createFromHexString alice_id) (createFromHexString bob_id) \<and>
   followUser alice_id bob_id 1721433600000 1721433600002 [alice, bob_stale] =
     (Inl (Error ERROR_UPDATE_FOLLOWERS),
      [alice\<lparr>followings := [\<lparr>followings_followingId = 0xb2, followings_date = 1721433600000\<rparr>]\<rparr>,
       bob_stale]) \<and>
   has_following
     [alice\<lparr>followings := [\<lparr>followings_followingId = 0xb2, followings_date = 1721433600000\<rparr>]\<rparr>,
      bob_stale] (createFromHexString alice_id) (createFromHexString bob_id) \<and>
   has_follower
     [alice\<lparr>followings := [\<lparr>followings_followingId = 0xb2, followings_date = 1721433600000\<rparr>]\<rparr>,
      bob_stale] (createFromHexString bob_id) (createFromHexString alice_id)"
  using run_follow_stale
  by (simp add: has_following_def has_follower_def findById_def findOne_def sample_ids
      sample_defs bob_stale_def)

section \<open>Follow, then unfollow or follow again\<close>

text \<open>
  C3. When \<open>followUser userId followId\<close> succeeds, the \<open>unfollowUser userId followId\<close> that
  follows succeeds too and gives back the collection of before the follow (the documents
  here carry no \<^verbatim>\<open>updatedAt\<close>), in which the edge is absent on both sides.
\<close>

theorem follow_unfollow_roundtrip:
  assumes "wf_store db"
    and "followUser userId followId now1 now2 db = (Inr r, db1)"
    and "unfollowUser userId followId db1 = (res, db2)"
  shows "res = Inr (getSuccessResponse 200 UPDATE_UNFOLLOW None) \<and> db2 = db \<and>
         (\<exists>u f. findById (createFromHexString userId) db2 = Some u \<and>
            createFromHexString followId \<notin> followings_followingId ` set (followings u) \<and>
            findById (createFromHexString followId) db2 = Some f \<and>
            createFromHexString userId \<notin> followers_followId ` set (followers f))"
proof -
  let ?cu = "createFromHexString userId" and ?cf = "createFromHexString followId"
  let ?eg = "\<lparr>followings_followingId = ?cf, followings_date = now1\<rparr>"
  let ?er = "\<lparr>followers_followId = ?cu, followers_date = now2\<rparr>"
  from assms(1) have d: "distinct (map user_id db)"
    by (rule wf_store_distinct)
  note v = followUser_valid [OF assms(2)]
  from d assms(2) obtain du df where
    du: "findById ?cu db = Some du" "?cf \<notin> followings_followingId ` set (followings du)" and
    df: "findById ?cf db = Some df" "?cu \<notin> followers_followId ` set (followers df)" and
    db1: "db1 = update_by_id ?cf (push_followers ?er) (update_by_id ?cu (push_followings ?eg) db)"
    by (rule followUser_success)
  have ids1: "map user_id db1 = map user_id db"
    by (simp add: db1 ids_update_by_id)
  with d have d1: "distinct (map user_id db1)"
    by simp
  have only_u: "x = du" if "x \<in> set db" "user_id x = ?cu" for x
    using findById_distinct [OF d that(1)] that(2) du(1) by simp
  have only_f: "x = df" if "x \<in> set db" "user_id x = ?cf" for x
    using findById_distinct [OF d that(1)] that(2) df(1) by simp
  have u1: "findById ?cu db1 =
      Some ((if ?cu = ?cf then push_followers ?er else id) (push_followings ?eg du))"
    by (simp add: db1 findById_update_by_id du(1))
  let ?db1' = "update_by_id ?cu (pull_followings ?cf) db1"
  have db1': "?db1' = update_by_id ?cf (push_followers ?er) db"
  proof -
    have "?db1' = update_by_id ?cf (push_followers ?er)
        (update_by_id ?cu (pull_followings ?cf) (update_by_id ?cu (push_followings ?eg) db))"
      unfolding db1 by (rule update_by_id_commute_fields) (simp_all add: push_pull_commute)
    also have "update_by_id ?cu (pull_followings ?cf) (update_by_id ?cu (push_followings ?eg) db)
        = update_by_id ?cu (pull_followings ?cf \<circ> push_followings ?eg) db"
      by (rule update_by_id_twice) simp
    also have "\<dots> = db"
      by (rule update_by_id_id) (use only_u du(2) in \<open>simp add: pull_push_followings\<close>)
    finally show ?thesis .
  qed
  have f1: "findById ?cf ?db1' = Some (push_followers ?er df)"
    by (simp add: db1' findById_update_by_id df(1))
  have restored: "update_by_id ?cf (pull_followers ?cu) ?db1' = db"
  proof -
    have "update_by_id ?cf (pull_followers ?cu) ?db1' =
        update_by_id ?cf (pull_followers ?cu \<circ> push_followers ?er) db"
      unfolding db1' by (rule update_by_id_twice) simp
    also have "\<dots> = db"
      by (rule update_by_id_id) (use only_f df(2) in \<open>simp add: pull_push_followers\<close>)
    finally show ?thesis .
  qed
  have "unfollowUser userId followId db1 =
      (Inr (getSuccessResponse 200 UPDATE_UNFOLLOW None), db)"
    using v u1 f1 restored
    by (simp add: unfollowUser_steps [OF d1] Let_def)
  with assms(3) have "res = Inr (getSuccessResponse 200 UPDATE_UNFOLLOW None)" "db2 = db"
    by simp_all
  with du df show ?thesis
    by simp
qed

theorem follow_unfollow_roundtrip_witness:
  "wf_store [alice, bob] \<and>
   followUser alice_id bob_id 1721433600000 1721433600002 [alice, bob] =
     (Inr (getSuccessResponse 200 UPDATE_FOLLOW None), alice_follows_bob) \<and>
   unfollowUser alice_id bob_id alice_follows_bob =
     (Inr (getSuccessResponse 200 UPDATE_UNFOLLOW None), [alice, bob]) \<and>
   (\<exists>u f. findById (createFromHexString alice_id) [alice, bob] = Some u \<and>
      createFromHexString bob_id \<notin> followings_followingId ` set (followings u) \<and>
      findById (createFromHexString bob_id) [alice, bob] = Some f \<and>
      createFromHexString alice_id \<notin> followers_followId ` set (followers f))"
  using follow_unfollow_roundtrip [OF wf_sample(1) run_follow run_unfollow]
    wf_sample(1) run_follow run_unfollow
  by blast

text \<open>
  C4. For two distinct well-formed identifiers, \<open>userId\<close> that of an existing user: after
  two calls of \<open>followUser userId followId\<close> in sequence, the second has failed with
  \<open>ERROR_UPDATE_FOLLOWING\<close> and has written nothing (no second entry, no new date), and
  the \<open>followings\<close> of \<open>userId\<close> hold exactly one entry for \<open>followId\<close>; an entry that was
  there before the first call is left as it was.
\<close>

theorem followUser_twice:
  assumes "wf_store db"
    and "isValidObjectId userId" and "isValidObjectId followId" and "userId \<noteq> followId"
    and "findById (createFromHexString userId) db = Some du"
    and "followUser userId followId now1 now2 db = (res1, db1)"
    and "followUser userId followId now3 now4 db1 = (res2, db2)"
  shows "res2 = Inl (Error ERROR_UPDATE_FOLLOWING) \<and> db2 = db1 \<and>
         (\<exists>u1. findById (createFromHexString userId) db1 = Some u1 \<and>
            length (filter (\<lambda>e. followings_followingId e = createFromHexString followId)
              (followings u1)) = 1 \<and>
            (createFromHexString followId \<in> followings_followingId ` set (followings du) \<longrightarrow>
               followings u1 = followings du))"
proof -
  let ?cu = "createFromHexString userId" and ?cf = "createFromHexString followId"
  let ?eg = "\<lparr>followings_followingId = ?cf, followings_date = now1\<rparr>"
  let ?er = "\<lparr>followers_followId = ?cu, followers_date = now2\<rparr>"
  let ?db' = "update_by_id ?cu (push_followings ?eg) db"
  from assms(1) have d: "distinct (map user_id db)"
    by (rule wf_store_distinct)
  from assms(5) have "du \<in> set db"
    by (simp add: findById_Some)
  with assms(1) have dist: "distinct (map followings_followingId (followings du))"
    by (rule wf_store_followings)
  have "\<exists>u1. findById ?cu db1 = Some u1 \<and> ?cf \<in> followings_followingId ` set (followings u1) \<and>
      length (filter (\<lambda>e. followings_followingId e = ?cf) (followings u1)) = 1 \<and>
      (?cf \<in> followings_followingId ` set (followings du) \<longrightarrow> followings u1 = followings du) \<and>
      distinct (map user_id db1)"
  proof (cases "?cf \<in> followings_followingId ` set (followings du)")
    case True
    with assms(2-6) have "db1 = db"
      by (simp add: followUser_steps [OF d])
    with True assms(5) dist d show ?thesis
      by (simp add: length_filter_key_distinct)
  next
    case False
    have u': "findById ?cu ?db' = Some (push_followings ?eg du)"
      by (simp add: findById_update_by_id assms(5))
    have d': "distinct (map user_id ?db')"
      using d by (simp add: ids_update_by_id)
    from False assms(2-6) have "db1 = ?db' \<or> db1 = update_by_id ?cf (push_followers ?er) ?db'"
      by (auto simp: followUser_steps [OF d] Let_def split: option.splits if_splits)
    then have "\<exists>u1. findById ?cu db1 = Some u1 \<and> followings u1 = followings du @ [?eg]"
      using u' by (auto simp: findById_update_by_id)
    moreover have "distinct (map user_id db1)"
      using \<open>db1 = ?db' \<or> db1 = update_by_id ?cf (push_followers ?er) ?db'\<close> d'
      by (auto simp: ids_update_by_id)
    ultimately show ?thesis
      using False by (auto simp: filter_key_absent)
  qed
  then obtain u1 where
    u1: "findById ?cu db1 = Some u1" "?cf \<in> followings_followingId ` set (followings u1)"
      "length (filter (\<lambda>e. followings_followingId e = ?cf) (followings u1)) = 1"
      "?cf \<in> followings_followingId ` set (followings du) \<longrightarrow> followings u1 = followings du"
    and d1: "distinct (map user_id db1)"
    by blast
  from assms(2-4,7) u1(1,2) have "res2 = Inl (Error ERROR_UPDATE_FOLLOWING)" "db2 = db1"
    by (simp_all add: followUser_steps [OF d1])
  with u1 show ?thesis
    by blast
qed

theorem followUser_twice_witness:
  "wf_store [alice, bob] \<and> isValidObjectId alice_id \<and> isValidObjectId bob_id \<and>
   alice_id \<noteq> bob_id \<and> findById (createFromHexString alice_id) [alice, bob] = Some alice \<and>
   followUser alice_id bob_id 1721433600000 1721433600002 [alice, bob] =
     (Inr (getSuccessResponse 200 UPDATE_FOLLOW None), alice_follows_bob) \<and>
   followUser alice_id bob_id 1721520000000 1721520000001 alice_follows_bob =
     (Inl (Error ERROR_UPDATE_FOLLOWING), alice_follows_bob) \<and>
   (\<exists>u1. findById (createFromHexString alice_id) alice_follows_bob = Some u1 \<and>
      length (filter (\<lambda>e. followings_followingId e = createFromHexString bob_id)
        (followings u1)) = 1)"
proof -
  have found: "findById (createFromHexString alice_id) [alice, bob] = Some alice"
    by (simp add: findById_def findOne_def sample_ids sample_defs)
  from followUser_twice [OF wf_sample(1) sample_ids_valid(1) sample_ids_valid(2)
      sample_ids_distinct(1) found run_follow run_follow_again]
  have "\<exists>u1. findById (createFromHexString alice_id) alice_follows_bob = Some u1 \<and>
      length (filter (\<lambda>e. followings_followingId e = createFromHexString bob_id)
        (followings u1)) = 1"
    by blast
  with wf_sample(1) sample_ids_valid(1,2) sample_ids_distinct(1) found run_follow
    run_follow_again
  show ?thesis
    by blast
qed

section \<open>Self-follow\<close>

text \<open>
  C5, as amended. \<open>followUser u u\<close> fails and leaves the collection as it is, whatever the
  collection: with \<open>ERROR_IDS_SAME\<close> when \<open>u\<close> is well-formed, with \<open>ERROR_VALID_ID\<close> when
  it is not (the check of the identifiers comes first).
\<close>

theorem followUser_self:
  "(isValidObjectId u \<longrightarrow> followUser u u now1 now2 db = (Inl (Error ERROR_IDS_SAME), db)) \<and>
   (\<not> isValidObjectId u \<longrightarrow> followUser u u now1 now2 db = (Inl (Error ERROR_VALID_ID), db))"
  by (simp add: followUser_def)

theorem followUser_self_witness:
  "isValidObjectId alice_id \<and>
   followUser alice_id alice_id 1721433600000 1721433600002 [alice, bob] =
     (Inl (Error ERROR_IDS_SAME), [alice, bob]) \<and>
   \<not> isValidObjectId (js ''invalidId'') \<and>
   followUser (js ''invalidId'') (js ''invalidId'') 1721433600000 1721433600002 [alice, bob] =
     (Inl (Error ERROR_VALID_ID), [alice, bob])"
proof -
  have bad: "\<not> isValidObjectId (js ''invalidId'')"
    by (simp add: isValidObjectId_def js_def)
  from followUser_self [of alice_id 1721433600000 1721433600002 "[alice, bob]"]
    followUser_self [of "js ''invalidId''" 1721433600000 1721433600002 "[alice, bob]"]
    sample_ids_valid(1) bad
  show ?thesis
    by blast
qed

text \<open>
  C5, as stated for every identifier, fails at an identifier that is not well-formed.
\<close>

theorem followUser_self_counterexample:
  "fst (followUser (js ''invalidId'') (js ''invalidId'') 1721433600000 1721433600002 [alice, bob])
     \<noteq> Inl (Error ERROR_IDS_SAME)"
  by (simp add: followUser_def isValidObjectId_def js_def)

section \<open>Common followers\<close>

text \<open>
  C6. For two distinct well-formed identifiers, \<open>getCommonFollowers\<close> fails with
  \<open>NOT_FOUND\<close> when one of them has no document. Otherwise it succeeds with the views
  (\<^verbatim>\<open>_id\<close> and \<^verbatim>\<open>username\<close>) of exactly the documents whose identifier is in both
  \<open>followers\<close> arrays; when no identifier is in both, that is the empty list, still a
  success.
\<close>

theorem getCommonFollowers_result:
  assumes "isValidObjectId userId1" and "isValidObjectId userId2" and "userId1 \<noteq> userId2"
  shows "(findById (createFromHexString userId1) db = None \<or>
          findById (createFromHexString userId2) db = None \<longrightarrow>
            getCommonFollowers userId1 userId2 db = Inl (Error NOT_FOUND)) \<and>
         (\<forall>user1 user2.
            findById (createFromHexString userId1) db = Some user1 \<and>
            findById (createFromHexString userId2) db = Some user2 \<longrightarrow>
              getCommonFollowers userId1 userId2 db =
                Inr (getSuccessResponse 200 COMMON_FOLLOWERS
                  (Some (map (\<lambda>d. \<lparr>view_id = user_id d, view_username = username d\<rparr>)
                     (filter (\<lambda>d. user_id d \<in> followers_followId ` set (followers user1) \<inter>
                                              followers_followId ` set (followers user2)) db)))) \<and>
              (followers_followId ` set (followers user1) \<inter>
               followers_followId ` set (followers user2) = {} \<longrightarrow>
                 getCommonFollowers userId1 userId2 db =
                   Inr (getSuccessResponse 200 COMMON_FOLLOWERS (Some []))))"
proof (intro conjI allI impI)
  assume "findById (createFromHexString userId1) db = None \<or>
          findById (createFromHexString userId2) db = None"
  with assms show "getCommonFollowers userId1 userId2 db = Inl (Error NOT_FOUND)"
    by (rule getCommonFollowers_missing)
next
  fix user1 user2
  assume found: "findById (createFromHexString userId1) db = Some user1 \<and>
            findById (createFromHexString userId2) db = Some user2"
  then show "getCommonFollowers userId1 userId2 db =
                Inr (getSuccessResponse 200 COMMON_FOLLOWERS
                  (Some (map (\<lambda>d. \<lparr>view_id = user_id d, view_username = username d\<rparr>)
                     (filter (\<lambda>d. user_id d \<in> followers_followId ` set (followers user1) \<inter>
                                              followers_followId ` set (followers user2)) db))))"
    using assms by (simp add: getCommonFollowers_found)
  assume "followers_followId ` set (followers user1) \<inter>
               followers_followId ` set (followers user2) = {}"
  with found show "getCommonFollowers userId1 userId2 db =
                   Inr (getSuccessResponse 200 COMMON_FOLLOWERS (Some []))"
    using assms by (simp add: getCommonFollowers_found)
qed

theorem getCommonFollowers_result_witness:
  "isValidObjectId alice_id \<and> isValidObjectId bob_id \<and> isValidObjectId carol_id \<and>
   alice_id \<noteq> bob_id \<and> alice_id \<noteq> carol_id \<and>
   findById (createFromHexString carol_id) [alice, bob] = None \<and>
   getCommonFollowers alice_id carol_id [alice, bob] = Inl (Error NOT_FOUND) \<and>
   findById (createFromHexString alice_id) [alice_popular, bob_popular, carol] = Some alice_popular \<and>
   findById (createFromHexString bob_id) [alice_popular, bob_popular, carol] = Some bob_popular \<and>
   getCommonFollowers alice_id bob_id [alice_popular, bob_popular, carol] =
     Inr (getSuccessResponse 200 COMMON_FOLLOWERS
       (Some (map (\<lambda>d. \<lparr>view_id = user_id d, view_username = username d\<rparr>)
          (filter (\<lambda>d. user_id d \<in> followers_followId ` set (followers alice_popular) \<inter>
                                   followers_followId ` set (followers bob_popular))
             [alice_popular, bob_popular, carol])))) \<and>
   getCommonFollowers alice_id bob_id [alice_popular, bob_popular, carol] =
     Inr (getSuccessResponse 200 COMMON_FOLLOWERS (Some [carol_view])) \<and>
   findById (createFromHexString alice_id) [alice, bob] = Some alice \<and>
   findById (createFromHexString bob_id) [alice, bob] = Some bob \<and>
   followers_followId ` set (followers alice) \<inter> followers_followId ` set (followers bob) = {} \<and>
   getCommonFollowers alice_id bob_id [alice, bob] =
     Inr (getSuccessResponse 200 COMMON_FOLLOWERS (Some []))"
proof -
  note missing = getCommonFollowers_result [OF sample_ids_valid(1) sample_ids_valid(3)
      sample_ids_distinct(3), of "[alice, bob]"]
  note found = getCommonFollowers_result [OF sample_ids_valid(1) sample_ids_valid(2)
      sample_ids_distinct(1), of "[alice_popular, bob_popular, carol]"]
  note none = getCommonFollowers_result [OF sample_ids_valid(1) sample_ids_valid(2)
      sample_ids_distinct(1), of "[alice, bob]"]
  have disjoint:
    "followers_followId ` set (followers alice) \<inter> followers_followId ` set (followers bob) = {}"
    by (simp add: sample_defs)
  from missing find_sample(3)
  have r1: "getCommonFollowers alice_id carol_id [alice, bob] = Inl (Error NOT_FOUND)"
    by blast
  from found find_popular
  have r2: "getCommonFollowers alice_id bob_id [alice_popular, bob_popular, carol] =
     Inr (getSuccessResponse 200 COMMON_FOLLOWERS
       (Some (map (\<lambda>d. \<lparr>view_id = user_id d, view_username = username d\<rparr>)
          (filter (\<lambda>d. user_id d \<in> followers_followId ` set (followers alice_popular) \<inter>
                                   followers_followId ` set (followers bob_popular))
             [alice_popular, bob_popular, carol]))))"
    by blast
  from none find_sample(1,2) disjoint
  have r3: "getCommonFollowers alice_id bob_id [alice, bob] =
     Inr (getSuccessResponse 200 COMMON_FOLLOWERS (Some []))"
    by blast
  from sample_ids_valid sample_ids_distinct(1,3) find_sample find_popular disjoint r1 r2 r3
    run_common(1)
  show ?thesis
    by (intro conjI)
qed

text \<open>
  C7. For two distinct well-formed identifiers of existing users, \<open>getCommonFollowers\<close>
  succeeds in both orders of its arguments, with the same set of views.
\<close>

theorem getCommonFollowers_symmetric:
  assumes "isValidObjectId a" and "isValidObjectId b" and "a \<noteq> b"
    and "findById (createFromHexString a) db = Some ua"
    and "findById (createFromHexString b) db = Some ub"
  shows "\<exists>ra rb.
           getCommonFollowers a b db = Inr (getSuccessResponse 200 COMMON_FOLLOWERS (Some ra)) \<and>
           getCommonFollowers b a db = Inr (getSuccessResponse 200 COMMON_FOLLOWERS (Some rb)) \<and>
           set ra = set rb"
proof -
  from assms(3) have "b \<noteq> a" by simp
  note ab = getCommonFollowers_found [OF assms(1) assms(2) assms(3) assms(4) assms(5)]
  note ba = getCommonFollowers_found [OF assms(2) assms(1) \<open>b \<noteq> a\<close> assms(5) assms(4)]
  let ?ra = "map (\<lambda>d. \<lparr>view_id = user_id d, view_username = username d\<rparr>)
          (filter (\<lambda>d. user_id d \<in> followers_followId ` set (followers ua) \<inter>
                                   followers_followId ` set (followers ub)) db)"
  let ?rb = "map (\<lambda>d. \<lparr>view_id = user_id d, view_username = username d\<rparr>)
          (filter (\<lambda>d. user_id d \<in> followers_followId ` set (followers ub) \<inter>
                                   followers_followId ` set (followers ua)) db)"
  have "set ?ra = set ?rb"
    by auto
  with ab ba show ?thesis
    by blast
qed

theorem getCommonFollowers_symmetric_witness:
  "isValidObjectId alice_id \<and> isValidObjectId bob_id \<and> alice_id \<noteq> bob_id \<and>
   findById (createFromHexString alice_id) [alice_popular, bob_popular, carol] = Some alice_popular \<and>
   findById (createFromHexString bob_id) [alice_popular, bob_popular, carol] = Some bob_popular \<and>
   getCommonFollowers alice_id bob_id [alice_popular, bob_popular, carol] =
     Inr (getSuccessResponse 200 COMMON_FOLLOWERS (Some [carol_view])) \<and>
   getCommonFollowers bob_id alice_id [alice_popular, bob_popular, carol] =
     Inr (getSuccessResponse 200 COMMON_FOLLOWERS (Some [carol_view])) \<and>
   (\<exists>ra rb.
      getCommonFollowers alice_id bob_id [alice_popular, bob_popular, carol] =
        Inr (getSuccessResponse 200 COMMON_FOLLOWERS (Some ra)) \<and>
      getCommonFollowers bob_id alice_id [alice_popular, bob_popular, carol] =
        Inr (getSuccessResponse 200 COMMON_FOLLOWERS (Some rb)) \<and>
      set ra = set rb)"
  using getCommonFollowers_symmetric [OF sample_ids_valid(1) sample_ids_valid(2)
      sample_ids_distinct(1) find_popular(1) find_popular(2)]
    sample_ids_valid(1,2) sample_ids_distinct(1) find_popular run_common
  by (intro conjI)

section \<open>Daily follower counts\<close>

text \<open>
  C8. For a well-formed identifier whose \<open>followers\<close> entries are dated within the years
  0000 to 9999 (the dates that have a text \<^verbatim>\<open>YYYY-MM-DD\<close>), \<open>getFollowersCountDaily\<close>
  succeeds with one row per UTC day on which an entry is dated, the rows in the ascending
  order of these days. The date of a row is the text \<^verbatim>\<open>YYYY-MM-DD\<close> of the Gregorian
  date of its day, and its count is the number of entries dated on that day. The dates
  of the rows are also strictly ascending as strings, and a user with no followers gets
  the empty list.
\<close>

theorem getFollowersCountDaily_result:
  assumes "wf_store db" and "isValidObjectId userId"
    and "\<forall>e\<in>set (followers_of (createFromHexString userId) db).
           in_years_0000_9999 (followers_date e)"
  shows "\<exists>rows days.
           getFollowersCountDaily userId db =
             Inr (getSuccessResponse 200 SHOW_FOLLOWERS (Some rows)) \<and>
           sorted_wrt (<) days \<and>
           set days =
             (\<lambda>e. utc_day (followers_date e)) `
               set (followers_of (createFromHexString userId) db) \<and>
           list_all2
             (\<lambda>row z.
                (\<exists>y m d. valid_date y m d \<and> days_from_civil y m d = z \<and>
                   0 \<le> y \<and> y \<le> 9999 \<and> date row = iso_date y m d) \<and>
                count row =
                  length (filter (\<lambda>e. utc_day (followers_date e) = z)
                    (followers_of (createFromHexString userId) db)))
             rows days \<and>
           sorted_wrt (<) (map date rows) \<and>
           (followers_of (createFromHexString userId) db = [] \<longrightarrow> rows = [])"
proof -
  define es where "es = followers_of (createFromHexString userId) db"
  define rows where "rows = project_date_count (sort_by_date
    (foldl (\<lambda>gs e. add_to_group (date_of_day (utc_day (followers_date e))) gs) [] es))"
  define days where "days = sorted_list_of_set ((\<lambda>e. utc_day (followers_date e)) ` set es)"
  have in_range: "\<forall>e\<in>set es. in_years_0000_9999 (followers_date e)"
    using assms(3) by (simp only: es_def)
  from assms(1) have "distinct (map user_id db)"
    by (rule wf_store_distinct)
  then have "unwind_followers (match_id (createFromHexString userId) db) = es"
    unfolding es_def by (rule unwind_match_id)
  with assms(2) have run: "getFollowersCountDaily userId db =
      Inr (getSuccessResponse 200 SHOW_FOLLOWERS (Some rows))"
    by (simp add: getFollowersCountDaily_def group_by_date_in_range [OF in_range] rows_def)
  have days: "sorted_wrt (<) days" "set days = (\<lambda>e. utc_day (followers_date e)) ` set es"
    by (simp_all add: days_def)
  have range: "- 719528 \<le> utc_day (followers_date e) \<and> utc_day (followers_date e) \<le> 2932896"
    if "e \<in> set es" for e
    using that in_range by (simp add: in_years_utc_day [symmetric])
  note r = daily_counts_rows [of "\<lambda>e. date_of_day (utc_day (followers_date e))" es,
      folded rows_def]
  have "map date rows = map date_of_day days"
    unfolding rows_def days_def by (rule daily_counts_days [OF in_range])
  then have "list_all2 (\<lambda>row z. date row = date_of_day z) rows days"
    by (rule map_eq_list_all2)
  then have rows_days: "list_all2
      (\<lambda>row z.
         (\<exists>y m d. valid_date y m d \<and> days_from_civil y m d = z \<and>
            0 \<le> y \<and> y \<le> 9999 \<and> date row = iso_date y m d) \<and>
         count row = length (filter (\<lambda>e. utc_day (followers_date e) = z) es))
      rows days"
  proof (rule list.rel_mono_strong)
    fix row z
    assume row: "row \<in> set rows" and z: "z \<in> set days" and d: "date row = date_of_day z"
    from z range have zr: "- 719528 \<le> z" "z \<le> 2932896"
      by (auto simp: days(2))
    have "(date_of_day (utc_day (followers_date e)) = date_of_day z) =
        (utc_day (followers_date e) = z)" if "e \<in> set es" for e
      using range [OF that] zr by (simp add: date_of_day_order(2))
    then have "filter (\<lambda>e. date_of_day (utc_day (followers_date e)) = date_of_day z) es =
        filter (\<lambda>e. utc_day (followers_date e) = z) es"
      by (intro filter_cong) simp_all
    with r row d have "count row = length (filter (\<lambda>e. utc_day (followers_date e) = z) es)"
      by simp
    moreover from date_of_day_iso [OF zr] d
    have "\<exists>y m d. valid_date y m d \<and> days_from_civil y m d = z \<and>
        0 \<le> y \<and> y \<le> 9999 \<and> date row = iso_date y m d"
      by simp
    ultimately show "(\<exists>y m d. valid_date y m d \<and> days_from_civil y m d = z \<and>
          0 \<le> y \<and> y \<le> 9999 \<and> date row = iso_date y m d) \<and>
        count row = length (filter (\<lambda>e. utc_day (followers_date e) = z) es)"
      by simp
  qed
  have strict: "sorted_wrt (<) (map date rows)"
    using r by (simp add: strict_sorted_iff)
  have empty: "es = [] \<longrightarrow> rows = []"
    by (simp add: rows_def sort_by_date_def project_date_count_def)
  from run days rows_days strict empty show ?thesis
    unfolding es_def by blast
qed

theorem getFollowersCountDaily_result_witness:
  "wf_store [alice_popular, bob_popular, carol] \<and> isValidObjectId bob_id \<and>
   followers_of (createFromHexString bob_id) [alice_popular, bob_popular, carol] =
     [\<lparr>followers_followId = 0xa1, followers_date = 1721433600000\<rparr>,
      \<lparr>followers_followId = 0xc3, followers_date = 1709164800000\<rparr>,
      \<lparr>followers_followId = 0xd4, followers_date = 1721519999999\<rparr>] \<and>
   in_years_0000_9999 1721433600000 \<and> in_years_0000_9999 1709164800000 \<and>
   in_years_0000_9999 1721519999999 \<and>
   utc_day 1721433600000 = 19924 \<and> utc_day 1709164800000 = 19782 \<and>
   utc_day 1721519999999 = 19924 \<and>
   days_from_civil 2024 2 29 = 19782 \<and> days_from_civil 2024 7 20 = 19924 \<and>
   getFollowersCountDaily bob_id [alice_popular, bob_popular, carol] =
     Inr (getSuccessResponse 200 SHOW_FOLLOWERS
       (Some [\<lparr>date = ''2024-02-29'', count = 1\<rparr>, \<lparr>date = ''2024-07-20'', count = 2\<rparr>])) \<and>
   (\<exists>rows days.
      getFollowersCountDaily bob_id [alice_popular, bob_popular, carol] =
        Inr (getSuccessResponse 200 SHOW_FOLLOWERS (Some rows)) \<and>
      sorted_wrt (<) days \<and>
      set days =
        (\<lambda>e. utc_day (followers_date e)) `
          set (followers_of (createFromHexString bob_id) [alice_popular, bob_popular, carol]) \<and>
      list_all2
        (\<lambda>row z.
           (\<exists>y m d. valid_date y m d \<and> days_from_civil y m d = z \<and>
              0 \<le> y \<and> y \<le> 9999 \<and> date row = iso_date y m d) \<and>
           count row =
             length (filter (\<lambda>e. utc_day (followers_date e) = z)
               (followers_of (createFromHexString bob_id)
                  [alice_popular, bob_popular, carol])))
        rows days \<and>
      sorted_wrt (<) (map date rows) \<and>
      (followers_of (createFromHexString bob_id) [alice_popular, bob_popular, carol] = [] \<longrightarrow>
         rows = []))"
proof -
  have es: "followers_of (createFromHexString bob_id) [alice_popular, bob_popular, carol] =
     [\<lparr>followers_followId = 0xa1, followers_date = 1721433600000\<rparr>,
      \<lparr>followers_followId = 0xc3, followers_date = 1709164800000\<rparr>,
      \<lparr>followers_followId = 0xd4, followers_date = 1721519999999\<rparr>]"
    unfolding followers_of_popular by (simp add: bob_popular_def sample_defs)
  have dates: "in_years_0000_9999 1721433600000" "in_years_0000_9999 1709164800000"
      "in_years_0000_9999 1721519999999"
    by (simp_all add: in_years_0000_9999_def)
  have in_range: "\<forall>e\<in>set (followers_of (createFromHexString bob_id)
      [alice_popular, bob_popular, carol]). in_years_0000_9999 (followers_date e)"
    unfolding es by (simp add: dates)
  from getFollowersCountDaily_result [OF wf_popular sample_ids_valid(2) in_range]
    wf_popular sample_ids_valid(2) es dates days_sample(1,3,2,5,4) run_daily
  show ?thesis
    by (intro conjI)
qed

text \<open>
  C10. For a well-formed identifier with no document, \<open>getFollowersCountDaily\<close> succeeds
  with the empty list, while \<open>getCommonFollowers\<close> with that identifier on either side
  fails with \<open>NOT_FOUND\<close>.
\<close>

theorem getFollowersCountDaily_missing_user:
  assumes "isValidObjectId userId"
    and "findById (createFromHexString userId) db = None"
  shows "getFollowersCountDaily userId db =
           Inr (getSuccessResponse 200 SHOW_FOLLOWERS (Some [])) \<and>
         (\<forall>other. isValidObjectId other \<and> other \<noteq> userId \<longrightarrow>
            getCommonFollowers userId other db = Inl (Error NOT_FOUND) \<and>
            getCommonFollowers other userId db = Inl (Error NOT_FOUND))"
proof -
  from assms(2) have "match_id (createFromHexString userId) db = []"
    by (force simp: match_id_def findById_None filter_empty_conv)
  with assms(1) have "getFollowersCountDaily userId db =
      Inr (getSuccessResponse 200 SHOW_FOLLOWERS (Some []))"
    by (simp add: getFollowersCountDaily_def unwind_followers_def group_by_date_def
        sort_by_date_def project_date_count_def)
  moreover have "getCommonFollowers userId other db = Inl (Error NOT_FOUND) \<and>
      getCommonFollowers other userId db = Inl (Error NOT_FOUND)"
    if "isValidObjectId other \<and> other \<noteq> userId" for other
  proof -
    from that have o: "isValidObjectId other" "other \<noteq> userId" "userId \<noteq> other"
      by auto
    from assms(2) show ?thesis
      by (simp add: getCommonFollowers_missing [OF assms(1) o(1) o(3)]
          getCommonFollowers_missing [OF o(1) assms(1) o(2)])
  qed
  ultimately show ?thesis
    by blast
qed

theorem getFollowersCountDaily_missing_user_witness:
  "isValidObjectId carol_id \<and> findById (createFromHexString carol_id) [alice, bob] = None \<and>
   getFollowersCountDaily carol_id [alice, bob] =
     Inr (getSuccessResponse 200 SHOW_FOLLOWERS (Some [])) \<and>
   isValidObjectId alice_id \<and> alice_id \<noteq> carol_id \<and>
   getCommonFollowers carol_id alice_id [alice, bob] = Inl (Error NOT_FOUND) \<and>
   getCommonFollowers alice_id carol_id [alice, bob] = Inl (Error NOT_FOUND)"
  using getFollowersCountDaily_missing_user [OF sample_ids_valid(3) find_sample(3)]
    sample_ids_valid(1,3) sample_ids_distinct(3) find_sample(3)
  by blast

section \<open>Creating a user\<close>

text \<open>
  C9. \<open>createUser\<close> fails with \<open>ERROR_USER_NAME\<close> for a username shorter than three code
  units, and with \<open>ERROR_EXIST_USER\<close> when a document has that username already, leaving
  the collection as it is in both cases; otherwise (given the fresh identifier the driver
  generates) it appends a document with that username and empty \<open>followers\<close> and
  \<open>followings\<close>, and returns it.
\<close>

theorem createUser_result:
  "(length uname < 3 \<longrightarrow> createUser uname newId db = (Inl (Error ERROR_USER_NAME), db)) \<and>
   (3 \<le> length uname \<and> uname \<in> username ` set db \<longrightarrow>
      createUser uname newId db = (Inl (Error ERROR_EXIST_USER), db)) \<and>
   (3 \<le> length uname \<and> uname \<notin> username ` set db \<and> newId \<notin> user_id ` set db \<longrightarrow>
      createUser uname newId db =
        (Inr (getSuccessResponse 201 CREATED
           (Some \<lparr>user_id = newId, username = uname, followers = [], followings = []\<rparr>)),
         db @ [\<lparr>user_id = newId, username = uname, followers = [], followings = []\<rparr>]))"
proof -
  have "findOne (\<lambda>d. username d = uname) db = None \<longleftrightarrow> uname \<notin> username ` set db"
    by (auto simp: findOne_def find_None_iff)
  then show ?thesis
    by (auto simp: createUser_def create_def Let_def split: option.splits)
qed

theorem createUser_result_witness:
  "length (js ''ab'') < 3 \<and>
   createUser (js ''ab'') 0xc3 [alice, bob] = (Inl (Error ERROR_USER_NAME), [alice, bob]) \<and>
   3 \<le> length (js ''alice'') \<and> js ''alice'' \<in> username ` set [alice, bob] \<and>
   createUser (js ''alice'') 0xc3 [alice, bob] = (Inl (Error ERROR_EXIST_USER), [alice, bob]) \<and>
   3 \<le> length (js ''carol'') \<and> js ''carol'' \<notin> username ` set [alice, bob] \<and>
   0xc3 \<notin> user_id ` set [alice, bob] \<and>
   createUser (js ''carol'') 0xc3 [alice, bob] =
     (Inr (getSuccessResponse 201 CREATED (Some carol)), [alice, bob, carol])"
proof -
  have short: "length (js ''ab'') < 3"
    and dup: "3 \<le> length (js ''alice'')" "js ''alice'' \<in> username ` set [alice, bob]"
    and fresh: "3 \<le> length (js ''carol'')" "js ''carol'' \<notin> username ` set [alice, bob]"
      "0xc3 \<notin> user_id ` set [alice, bob]"
    by (simp_all add: js_def sample_defs)
  from createUser_result [of "js ''ab''" "0xc3" "[alice, bob]"] short
  have r1: "createUser (js ''ab'') 0xc3 [alice, bob] = (Inl (Error ERROR_USER_NAME), [alice, bob])"
    by blast
  from createUser_result [of "js ''alice''" "0xc3" "[alice, bob]"] dup
  have r2: "createUser (js ''alice'') 0xc3 [alice, bob] =
      (Inl (Error ERROR_EXIST_USER), [alice, bob])"
    by blast
  from createUser_result [of "js ''carol''" "0xc3" "[alice, bob]"] fresh
  have r3: "createUser (js ''carol'') 0xc3 [alice, bob] =
     (Inr (getSuccessResponse 201 CREATED (Some carol)), [alice, bob, carol])"
    by (simp add: carol_def)
  from short dup fresh r1 r2 r3 show ?thesis
    by (intro conjI)
qed

end
